theory Spec2Isabelle
  imports Main
begin

section \<open>Values of the crawler\<close>

text \<open>
  The crawler (package \<open>crawler\<close>, file \<open>crawler/crawler.go\<close>) only ever inspects an
  error value in two ways: \<open>errors.Cause(err) == ErrHttpStatusCode\<close> and
  \<open>err.(net.Error)\<close> followed by \<open>Timeout()\<close>. An error is therefore one of: the package's
  own wrapped \<open>ErrHttpStatusCode\<close> (built by \<open>errors.Wrapf\<close> from the URL text and the status
  code), a value implementing \<open>net.Error\<close> (carrying what \<open>Timeout()\<close> answers), or any
  other error.
\<close>

datatype error =
    HttpStatusError string int
  | NetError bool string
  | OtherError string

fun cause_is_ErrHttpStatusCode :: "error \<Rightarrow> bool" where
  "cause_is_ErrHttpStatusCode (HttpStatusError u c) = True"
| "cause_is_ErrHttpStatusCode (NetError t m) = False"
| "cause_is_ErrHttpStatusCode (OtherError m) = False"

fun net_error_timeout :: "error \<Rightarrow> bool" where
  "net_error_timeout (HttpStatusError u c) = False"
| "net_error_timeout (NetError t m) = t"
| "net_error_timeout (OtherError m) = False"

text \<open>A Go call either returns a value or panics with the error it was given.\<close>

datatype 'a result = Panic error | Return 'a

text \<open>
  \<open>url.URL\<close> of the standard library, with the fields the crawler and the resolution rules
  read (\<open>User\<close>, \<open>RawPath\<close> and the fields of later Go releases are left out).
\<close>

record url =
  Scheme :: string
  Opaque :: string
  Host :: string
  Path :: string
  ForceQuery :: bool
  RawQuery :: string
  Fragment :: string

text \<open>
  The standard library \<open>net/url\<close> is not part of the repository. The crawler uses four of
  its operations; they are the fields of \<open>neturl\<close>, and every function below takes the
  library as its first argument: \<open>url.Parse\<close>, the method \<open>(*URL).Parse\<close> (parse a
  reference and resolve it against the receiver), \<open>(*URL).String\<close> and
  \<open>(*URL).Hostname\<close>.
\<close>

record neturl =
  url_Parse :: "string \<Rightarrow> error + url"
  URL_Parse :: "url \<Rightarrow> string \<Rightarrow> error + url"
  URL_String :: "url \<Rightarrow> string"
  URL_Hostname :: "url \<Rightarrow> string"

text \<open>
  \<open>html.Token\<close> and \<open>html.Attribute\<close> of \<open>golang.org/x/net/html\<close>. A response body
  is represented by the sequence of tokens the tokenizer yields for it before its first
  \<open>ErrorToken\<close> (end of input included).
\<close>

record attribute =
  Namespace :: string
  Key :: string
  Val :: string

record token =
  Data :: string
  Attr :: "attribute list"

record page =
  URL :: url
  Links :: "url list"

text \<open>
  What \<open>httpClient.Get\<close> hands back: an error, or a response with its status code, what
  \<open>io.Copy\<close> obtains from the body (an error or the content) and what \<open>Body.Close\<close>
  returns.
\<close>

record response =
  StatusCode :: int
  Body_Read :: "error + token list"
  Body_Close :: "error option"

type_synonym httpClient = "string \<Rightarrow> error + response"

section \<open>Link extraction\<close>

text \<open>\<open>formatURL\<close>: \<open>Return None\<close> is the nil pointer.\<close>

definition formatURL :: "neturl \<Rightarrow> url \<Rightarrow> string \<Rightarrow> url option result" where
  "formatURL L pageURL rawURL =
     (case URL_Parse L pageURL rawURL of
        Inl err \<Rightarrow> Panic err
      | Inr rel \<Rightarrow>
          if Scheme rel = ''http'' \<or> Scheme rel = ''https''
          then Return (Some (rel\<lparr>Fragment := ''''\<rparr>))
          else Return None)"

text \<open>
  The inner loop of \<open>collectLinks\<close> over the attributes of one token. The \<open>continue\<close>
  after the append continues this same loop, so every \<open>href\<close> attribute is looked at.
\<close>

fun collect_attrs :: "neturl \<Rightarrow> url \<Rightarrow> attribute list \<Rightarrow> url list \<Rightarrow> url list result" where
  "collect_attrs L pageURL [] links = Return links"
| "collect_attrs L pageURL (attr # rest) links =
     (if Key attr = ''href''
      then (case formatURL L pageURL (Val attr) of
              Panic err \<Rightarrow> Panic err
            | Return None \<Rightarrow> collect_attrs L pageURL rest links
            | Return (Some link) \<Rightarrow> collect_attrs L pageURL rest (links @ [link]))
      else collect_attrs L pageURL rest links)"

text \<open>The outer loop of \<open>collectLinks\<close> over the tokens, with the slice built so far.\<close>

fun collect_tokens :: "neturl \<Rightarrow> url \<Rightarrow> token list \<Rightarrow> url list \<Rightarrow> url list result" where
  "collect_tokens L pageURL [] links = Return links"
| "collect_tokens L pageURL (tag # rest) links =
     (if Data tag = ''a''
      then (case collect_attrs L pageURL (Attr tag) links of
              Panic err \<Rightarrow> Panic err
            | Return links' \<Rightarrow> collect_tokens L pageURL rest links')
      else collect_tokens L pageURL rest links)"

definition collectLinks :: "neturl \<Rightarrow> url \<Rightarrow> token list \<Rightarrow> url list result" where
  "collectLinks L pageURL r = collect_tokens L pageURL r []"

section \<open>Pages\<close>

definition Marshal :: "neturl \<Rightarrow> page \<Rightarrow> string" where
  "Marshal L p =
     ''URL:'' @ [CHR 0x0A, CHR 0x09] @ URL_String L (URL p) @ [CHR 0x0A] @ ''Links: '' @ [CHR 0x0A]
     @ concat (map (\<lambda>link. [CHR 0x09] @ URL_String L link @ [CHR 0x0A]) (Links p))"

section \<open>The fetch worker\<close>

text \<open>
  One pass through the body of the \<open>for url := range urls\<close> loop of \<open>getPages\<close>. The worker
  sends one value, on \<open>errs\<close> or on \<open>pages\<close>, and then either goes back to the head of the
  loop (\<open>continue\<close>, or the end of the body) or leaves the goroutine (\<open>return\<close>).
\<close>

datatype emitted = OnErrs error | OnPages page

datatype after = Continue | Returns

definition fetch :: "neturl \<Rightarrow> httpClient \<Rightarrow> url \<Rightarrow> (emitted \<times> after) result" where
  "fetch L httpClient_Get u =
     (case httpClient_Get (URL_String L u) of
        Inl err \<Rightarrow> Return (OnErrs err, Returns)
      | Inr resp \<Rightarrow>
          if StatusCode resp \<ge> 400
          then Return (OnErrs (HttpStatusError (URL_String L u) (StatusCode resp)), Continue)
          else (case Body_Read resp of
                  Inl err \<Rightarrow> Return (OnErrs err, Returns)
                | Inr buf \<Rightarrow>
                    (case Body_Close resp of
                       Some err \<Rightarrow> Return (OnErrs err, Returns)
                     | None \<Rightarrow>
                         (case collectLinks L u buf of
                            Panic err \<Rightarrow> Panic err
                          | Return links \<Rightarrow>
                              Return (OnPages \<lparr>URL = u, Links = links\<rparr>, Continue)))))"

text \<open>
  One \<open>getPages\<close> goroutine run on its own: \<open>urls\<close> is the sequence of URLs the frontier
  channel delivers to it before the channel is closed. The result is the sequence of values
  the goroutine sends and the URLs it has not received when it ends.
\<close>

fun getPages :: "neturl \<Rightarrow> httpClient \<Rightarrow> url list \<Rightarrow> (emitted list \<times> url list) result" where
  "getPages L httpClient_Get [] = Return ([], [])"
| "getPages L httpClient_Get (u # urls) =
     (case fetch L httpClient_Get u of
        Panic err \<Rightarrow> Panic err
      | Return (x, Returns) \<Rightarrow> Return ([x], urls)
      | Return (x, Continue) \<Rightarrow>
          (case getPages L httpClient_Get urls of
             Panic err \<Rightarrow> Panic err
           | Return (xs, left) \<Rightarrow> Return (x # xs, left)))"

section \<open>A model of \<open>net/url\<close>\<close>

text \<open>
  The closed examples below need the library at concrete strings. \<open>go_neturl\<close> models
  \<open>net/url\<close> on references built from a scheme, an authority, a path, a query and a
  fragment: \<open>getScheme\<close>, the splitting done by \<open>Parse\<close>, \<open>resolvePath\<close>,
  \<open>ResolveReference\<close>, \<open>String\<close> and \<open>Hostname\<close>. The record \<open>url\<close> has the fields of
  \<open>url.URL\<close> that such references fill; \<open>User\<close>, \<open>RawPath\<close>, \<open>RawFragment\<close> and
  \<open>OmitHost\<close> are left out. Percent-escapes are neither decoded nor written, and the
  checks of \<open>Parse\<close> on control bytes, escapes, userinfo, host and port are left out. The
  model is therefore the library on the plain references and plain URLs of section
  \<open>Notions used in the statements\<close>, which hold no \<open>%\<close>, \<open>@\<close>, bracket, space, control
  byte or byte above 127 and at most one \<open>#\<close>, and, where \<open>String\<close> is concerned, on
  those with a host name: a host without a port, so also not the references
  \<open>scheme:/path\<close>, whose empty host \<open>String\<close> does not write. Errors of \<open>Parse\<close> are
  \<open>*url.Error\<close> values, which implement \<open>net.Error\<close> with \<open>Timeout()\<close> false.
\<close>

definition is_letter :: "char \<Rightarrow> bool" where
  "is_letter c = (let n = (of_char c :: nat) in (97 \<le> n \<and> n \<le> 122) \<or> (65 \<le> n \<and> n \<le> 90))"

definition is_digit_plus_minus_dot :: "char \<Rightarrow> bool" where
  "is_digit_plus_minus_dot c =
     (let n = (of_char c :: nat) in (48 \<le> n \<and> n \<le> 57) \<or> n = 43 \<or> n = 45 \<or> n = 46)"

definition to_lower :: "char \<Rightarrow> char" where
  "to_lower c = (let n = (of_char c :: nat) in if 65 \<le> n \<and> n \<le> 90 then char_of (n + 32) else c)"

text \<open>\<open>getscheme\<close>: \<open>seen\<close> is \<open>rawurl[:i]\<close>, the third argument \<open>rawurl[i:]\<close>.\<close>

fun getscheme_loop :: "string \<Rightarrow> string \<Rightarrow> string \<Rightarrow> error + (string \<times> string)" where
  "getscheme_loop rawurl seen [] = Inr ('''', rawurl)"
| "getscheme_loop rawurl seen (c # cs) =
     (if is_letter c then getscheme_loop rawurl (seen @ [c]) cs
      else if is_digit_plus_minus_dot c
        then (if seen = [] then Inr ('''', rawurl) else getscheme_loop rawurl (seen @ [c]) cs)
      else if c = CHR '':''
        then (if seen = [] then Inl (NetError False ''missing protocol scheme'') else Inr (seen, cs))
      else Inr ('''', rawurl))"

definition getscheme :: "string \<Rightarrow> error + (string \<times> string)" where
  "getscheme rawurl = getscheme_loop rawurl [] rawurl"

text \<open>\<open>cut c s\<close>: the text before the first \<open>c\<close>, and the text after it when there is one.\<close>

fun cut :: "char \<Rightarrow> string \<Rightarrow> string \<times> string option" where
  "cut c [] = ([], None)"
| "cut c (x # xs) =
     (if x = c then ([], Some xs) else (case cut c xs of (b, a) \<Rightarrow> (x # b, a)))"

fun has_prefix :: "string \<Rightarrow> string \<Rightarrow> bool" where
  "has_prefix [] s = True"
| "has_prefix (p # ps) [] = False"
| "has_prefix (p # ps) (x # xs) = (p = x \<and> has_prefix ps xs)"

definition parse_no_fragment :: "string \<Rightarrow> error + url" where
  "parse_no_fragment rawurl =
     (if rawurl = ''*''
      then Inr \<lparr>Scheme = '''', Opaque = '''', Host = '''', Path = ''*'', ForceQuery = False,
                RawQuery = '''', Fragment = ''''\<rparr>
      else (case getscheme rawurl of
              Inl err \<Rightarrow> Inl err
            | Inr (scheme0, rest0) \<Rightarrow>
                (let scheme = map to_lower scheme0;
                     force = (rest0 \<noteq> [] \<and> last rest0 = CHR ''?'' \<and> count_list rest0 (CHR ''?'') = 1);
                     rest = (if force then butlast rest0 else fst (cut (CHR ''?'') rest0));
                     query = (if force then '''' else (case snd (cut (CHR ''?'') rest0) of
                                                        None \<Rightarrow> '''' | Some q \<Rightarrow> q))
                 in if \<not> has_prefix ''/'' rest \<and> scheme \<noteq> ''''
                    then Inr \<lparr>Scheme = scheme, Opaque = rest, Host = '''', Path = '''',
                              ForceQuery = force, RawQuery = query, Fragment = ''''\<rparr>
                    else if \<not> has_prefix ''/'' rest \<and> CHR '':'' \<in> set (fst (cut (CHR ''/'') rest))
                    then Inl (NetError False ''first path segment in URL cannot contain colon'')
                    else if has_prefix ''//'' rest \<and> \<not> (scheme = '''' \<and> has_prefix ''///'' rest)
                    then (case cut (CHR ''/'') (drop 2 rest) of
                            (authority, after) \<Rightarrow>
                              Inr \<lparr>Scheme = scheme, Opaque = '''', Host = authority,
                                   Path = (case after of None \<Rightarrow> '''' | Some p \<Rightarrow> CHR ''/'' # p),
                                   ForceQuery = force, RawQuery = query, Fragment = ''''\<rparr>)
                    else Inr \<lparr>Scheme = scheme, Opaque = '''', Host = '''', Path = rest,
                              ForceQuery = force, RawQuery = query, Fragment = ''''\<rparr>)))"

definition go_url_Parse :: "string \<Rightarrow> error + url" where
  "go_url_Parse rawurl =
     (case cut (CHR ''#'') rawurl of
        (u, frag) \<Rightarrow>
          (case parse_no_fragment u of
             Inl err \<Rightarrow> Inl err
           | Inr parsed \<Rightarrow> Inr (parsed\<lparr>Fragment := (case frag of None \<Rightarrow> '''' | Some f \<Rightarrow> f)\<rparr>)))"

text \<open>
  \<open>split c s\<close>: the elements of \<open>s\<close> between the occurrences of the byte \<open>c\<close>, which
  the loop of \<open>resolvePath\<close> takes off one by one with \<open>strings.Cut\<close>; \<open>join c\<close> puts
  elements together again with \<open>c\<close> between them.
\<close>

fun split :: "char \<Rightarrow> string \<Rightarrow> string list" where
  "split c [] = [[]]"
| "split c (x # xs) =
     (if x = c then [] # split c xs
      else (case split c xs of [] \<Rightarrow> [[x]] | y # ys \<Rightarrow> (x # y) # ys))"

fun join :: "char \<Rightarrow> string list \<Rightarrow> string" where
  "join c [] = []"
| "join c [x] = x"
| "join c (x # y # ys) = x @ [c] @ join c (y # ys)"

text \<open>
  One round of the loop of \<open>resolvePath\<close> over the elements of the path. The loop writes
  into a \<open>strings.Builder\<close> that starts with \<open>/\<close>; \<open>dst\<close> holds the elements written
  after that slash, which the builder separates by \<open>/\<close>, and the flag \<open>first\<close> of the
  loop is \<open>dst = []\<close>. An element \<open>.\<close> is dropped and clears \<open>first\<close>, so that the next
  element is written after a slash, as if an empty element had been written; \<open>..\<close>
  removes the last element written (if any); anything else is written. After the loop
  \<open>resolvePath\<close> writes one more slash if the last element was \<open>.\<close> or \<open>..\<close>,
  and drops the first slash of the builder if a second one follows it.
\<close>

definition drop_dots :: "string list \<Rightarrow> string \<Rightarrow> string list" where
  "drop_dots dst elem =
     (if elem = ''.'' then (if dst = [] then [''''] else dst)
      else if elem = ''..'' then butlast dst
      else dst @ [elem])"

definition resolvePath :: "string \<Rightarrow> string \<Rightarrow> string" where
  "resolvePath base ref =
     (let full = (if ref = [] then base
                  else if hd ref \<noteq> CHR ''/''
                    then rev (dropWhile (\<lambda>c. c \<noteq> CHR ''/'') (rev base)) @ ref
                  else ref)
      in if full = [] then []
         else (let src = split (CHR ''/'') full;
                   dst = foldl drop_dots [] src;
                   dst' = (if last src = ''.'' \<or> last src = ''..''
                           then (if dst = [] then ['''', ''''] else dst @ [''''])
                           else dst);
                   joined = join (CHR ''/'') dst'
               in CHR ''/'' # (if has_prefix ''/'' joined then tl joined else joined)))"

definition ResolveReference :: "url \<Rightarrow> url \<Rightarrow> url" where
  "ResolveReference u ref =
     (let url0 = (if Scheme ref = '''' then ref\<lparr>Scheme := Scheme u\<rparr> else ref)
      in if \<not> (Scheme ref = '''' \<and> Host ref = '''')
         then url0\<lparr>Path := resolvePath (Path ref) ''''\<rparr>
         else if Opaque ref \<noteq> ''''
         then url0\<lparr>Host := '''', Path := ''''\<rparr>
         else (let url1 = (if Path ref = '''' \<and> \<not> ForceQuery ref \<and> RawQuery ref = ''''
                           then url0\<lparr>RawQuery := RawQuery u,
                                     Fragment := (if Fragment ref = '''' then Fragment u
                                                  else Fragment ref)\<rparr>
                           else url0)
               in if Path ref = '''' \<and> Opaque u \<noteq> ''''
                  then url1\<lparr>Opaque := Opaque u, Host := '''', Path := ''''\<rparr>
                  else url1\<lparr>Host := Host u, Path := resolvePath (Path u) (Path ref)\<rparr>))"

definition go_URL_Parse :: "url \<Rightarrow> string \<Rightarrow> error + url" where
  "go_URL_Parse u ref =
     (case go_url_Parse ref of
        Inl err \<Rightarrow> Inl err
      | Inr refURL \<Rightarrow> Inr (ResolveReference u refURL))"

definition go_URL_String :: "url \<Rightarrow> string" where
  "go_URL_String u =
     (if Scheme u \<noteq> '''' then Scheme u @ '':'' else '''')
     @ (if Opaque u \<noteq> '''' then Opaque u
        else (if \<not> (Scheme u = '''' \<and> Host u = '''')
              then (if \<not> (Host u = '''' \<and> Path u = '''') then ''//'' else '''') @ Host u
              else '''')
             @ (if Path u \<noteq> '''' \<and> hd (Path u) \<noteq> CHR ''/'' \<and> Host u \<noteq> '''' then ''/'' else '''')
             @ (if Scheme u = '''' \<and> Host u = '''' \<and> CHR '':'' \<in> set (fst (cut (CHR ''/'') (Path u)))
                then ''./'' else '''')
             @ Path u)
     @ (if ForceQuery u \<or> RawQuery u \<noteq> '''' then ''?'' @ RawQuery u else '''')
     @ (if Fragment u \<noteq> '''' then ''#'' @ Fragment u else '''')"

definition go_URL_Hostname :: "url \<Rightarrow> string" where
  "go_URL_Hostname u =
     (if CHR '':'' \<notin> set (Host u) then Host u
      else if CHR '']'' \<in> set (Host u)
        then (let h = takeWhile (\<lambda>c. c \<noteq> CHR '']'') (Host u)
              in if has_prefix ''['' h then tl h else h)
      else takeWhile (\<lambda>c. c \<noteq> CHR '':'') (Host u))"

definition go_neturl :: neturl where
  "go_neturl = \<lparr>url_Parse = go_url_Parse, URL_Parse = go_URL_Parse,
                URL_String = go_URL_String, URL_Hostname = go_URL_Hostname\<rparr>"

section \<open>Crawl\<close>

text \<open>
  \<open>Crawl\<close> starts goroutines that meet on unbuffered channels, so a run of \<open>Crawl\<close> is a
  sequence of atomic steps of a state, one step for each rendezvous or channel close:
  \<^item> \<open>wg\<close> is the counter of the \<open>sync.WaitGroup\<close>, \<open>cache\<close> the keys of the map
    \<open>cache\<close>;
  \<^item> \<open>newURLs_senders\<close> holds one URL for each goroutine \<open>go func() { newURLs <- u }()\<close>
    that has been started and has not yet handed its URL over; \<open>newURLs_closed\<close> says
    whether \<open>close(newURLs)\<close> has run;
  \<^item> each of the \<open>workerCount\<close> calls of \<open>getPages\<close> gives one \<open>lane\<close>: the worker
    goroutine, the goroutine of \<open>mergePages\<close> that forwards its pages and the goroutine of
    \<open>mergeErrors\<close> that forwards its errors. A forwarding goroutine holds at most one value,
    the one it has received and is sending on the merged channel;
  \<^item> \<open>written\<close> are the byte strings accepted by \<open>out.Write\<close>, \<open>stdout\<close> the errors
    printed by \<open>fmt.Println\<close>;
  \<^item> \<open>status\<close> says whether the \<open>for { select { ... } }\<close> loop of \<open>Crawl\<close> is still
    running, has returned, or the process has died of a panic.
\<close>

datatype worker =
    Ranging
  | Sending emitted after
  | Gone

record lane =
  worker :: worker
  page_fwd :: "page option"
  err_fwd :: "error option"

datatype crash =
    Panicked error
  | NegativeWaitGroupCounter
  | SendOnClosedChannel

datatype status =
    Looping
  | Returned "error option"
  | Crashed crash

record state =
  seedURL :: url
  wg :: int
  cache :: "string set"
  newURLs_senders :: "url list"
  newURLs_closed :: bool
  lanes :: "lane list"
  written :: "string list"
  stdout :: "error list"
  status :: status

text \<open>
  The struct \<open>crawler\<close>. The writer \<open>out\<close> handed to \<open>Crawl\<close> is a function from what it
  has accepted so far and the bytes of this call to the error of this call.
\<close>

record crawler =
  workerCount :: int
  httpClient :: httpClient

type_synonym writer = "string list \<Rightarrow> string \<Rightarrow> error option"

text \<open>
  \<open>Crawl\<close> up to the \<open>for\<close> loop: the seed is parsed, the counter is set to one, one
  goroutine is sending the seed, and \<open>for i := 0; i < c.workerCount; i++\<close> has started the
  workers (none when \<open>workerCount\<close> is not positive).
\<close>

definition Crawl_start :: "neturl \<Rightarrow> crawler \<Rightarrow> string \<Rightarrow> error + state" where
  "Crawl_start L c rawURL =
     (case url_Parse L rawURL of
        Inl err \<Rightarrow> Inl err
      | Inr seed \<Rightarrow>
          Inr \<lparr>seedURL = seed, wg = 1, cache = {}, newURLs_senders = [seed],
               newURLs_closed = False,
               lanes = replicate (nat (workerCount c))
                         \<lparr>worker = Ranging, page_fwd = None, err_fwd = None\<rparr>,
               written = [], stdout = [], status = Looping\<rparr>)"

text \<open>\<open>wg.Done()\<close>: the counter must not become negative.\<close>

definition wg_Done :: "state \<Rightarrow> state" where
  "wg_Done s =
     (if wg s - 1 < 0 then s\<lparr>status := Crashed NegativeWaitGroupCounter\<rparr>
      else s\<lparr>wg := wg s - 1\<rparr>)"

text \<open>
  The loop \<open>for _, link := range page.Links\<close>: for an admitted link the key is stored,
  then \<open>wg.Add(1)\<close>, then the sending goroutine is started.
\<close>

fun admit_links :: "neturl \<Rightarrow> url list \<Rightarrow> state \<Rightarrow> state" where
  "admit_links L [] s = s"
| "admit_links L (link # links) s =
     (if URL_Hostname L link = URL_Hostname L (seedURL s)
      then (if URL_String L link \<notin> cache s
            then admit_links L links
                   (s\<lparr>cache := insert (URL_String L link) (cache s),
                      wg := wg s + 1,
                      newURLs_senders := newURLs_senders s @ [link]\<rparr>)
            else admit_links L links s)
      else admit_links L links s)"

text \<open>The \<open>select\<close> case of a received page, up to and including \<open>wg.Done()\<close>.\<close>

definition on_page :: "neturl \<Rightarrow> writer \<Rightarrow> page \<Rightarrow> state \<Rightarrow> state" where
  "on_page L out_Write p s =
     (case out_Write (written s) (Marshal L p) of
        Some err \<Rightarrow> s\<lparr>status := Returned (Some err)\<rparr>
      | None \<Rightarrow> wg_Done (admit_links L (Links p) (s\<lparr>written := written s @ [Marshal L p]\<rparr>)))"

text \<open>The \<open>select\<close> case of a received error.\<close>

definition on_error :: "error \<Rightarrow> state \<Rightarrow> state" where
  "on_error err s =
     (if cause_is_ErrHttpStatusCode err then wg_Done (s\<lparr>stdout := stdout s @ [err]\<rparr>)
      else if net_error_timeout err then wg_Done (s\<lparr>stdout := stdout s @ [err]\<rparr>)
      else s\<lparr>status := Returned (Some err)\<rparr>)"

text \<open>
  The steps.
  \<^item> \<open>Deliver i w\<close>: the \<open>i\<close>-th sending goroutine hands its URL to worker \<open>w\<close>, which is
    at \<open>range urls\<close>; the worker runs the loop body up to its send.
  \<^item> \<open>CloseFrontier\<close>: \<open>wg.Wait()\<close> has seen the counter at zero and \<open>close(newURLs)\<close>
    runs; a goroutine still sending on the channel panics.
  \<^item> \<open>RangeEnds w\<close>: worker \<open>w\<close> finds \<open>newURLs\<close> closed, returns and closes its channels.
  \<^item> \<open>Forward w\<close>: the value worker \<open>w\<close> is sending is received by its forwarding
    goroutine; the worker goes on as the loop body says.
  \<^item> \<open>LoopPage w\<close>, \<open>LoopError w\<close>: the \<open>select\<close> of \<open>Crawl\<close> receives the value held by
    a forwarding goroutine of lane \<open>w\<close>.
  \<^item> \<open>LoopPagesClosed\<close>, \<open>LoopErrsClosed\<close>: the \<open>select\<close> finds a merged channel closed,
    which is the case once every worker has returned and the forwarding goroutines of that
    channel hold nothing.
  A step that is not enabled yields \<open>None\<close>. The run is followed until \<open>Crawl\<close> returns or
  the process dies.
\<close>

datatype action =
    Deliver nat nat
  | CloseFrontier
  | RangeEnds nat
  | Forward nat
  | LoopPage nat
  | LoopError nat
  | LoopPagesClosed
  | LoopErrsClosed

definition set_worker :: "nat \<Rightarrow> worker \<Rightarrow> state \<Rightarrow> state" where
  "set_worker w x s = s\<lparr>lanes := (lanes s)[w := (lanes s ! w)\<lparr>worker := x\<rparr>]\<rparr>"

definition after_send :: "after \<Rightarrow> worker" where
  "after_send a = (case a of Continue \<Rightarrow> Ranging | Returns \<Rightarrow> Gone)"

fun step :: "neturl \<Rightarrow> crawler \<Rightarrow> writer \<Rightarrow> action \<Rightarrow> state \<Rightarrow> state option" where
  "step L c out_Write (Deliver i w) s =
     (if status s = Looping \<and> i < length (newURLs_senders s) \<and> w < length (lanes s)
         \<and> worker (lanes s ! w) = Ranging \<and> \<not> newURLs_closed s
      then (let s' = s\<lparr>newURLs_senders :=
                         take i (newURLs_senders s) @ drop (Suc i) (newURLs_senders s)\<rparr>
            in case fetch L (httpClient c) (newURLs_senders s ! i) of
                 Panic err \<Rightarrow> Some (s'\<lparr>status := Crashed (Panicked err)\<rparr>)
               | Return (x, a) \<Rightarrow> Some (set_worker w (Sending x a) s'))
      else None)"
| "step L c out_Write CloseFrontier s =
     (if status s = Looping \<and> wg s = 0 \<and> \<not> newURLs_closed s
      then Some (if newURLs_senders s = [] then s\<lparr>newURLs_closed := True\<rparr>
                 else s\<lparr>newURLs_closed := True, status := Crashed SendOnClosedChannel\<rparr>)
      else None)"
| "step L c out_Write (RangeEnds w) s =
     (if status s = Looping \<and> w < length (lanes s) \<and> worker (lanes s ! w) = Ranging
         \<and> newURLs_closed s
      then Some (set_worker w Gone s)
      else None)"
| "step L c out_Write (Forward w) s =
     (if status s = Looping \<and> w < length (lanes s)
      then (case worker (lanes s ! w) of
              Sending (OnPages p) a \<Rightarrow>
                (if page_fwd (lanes s ! w) = None
                 then Some (s\<lparr>lanes := (lanes s)[w := (lanes s ! w)
                                 \<lparr>worker := after_send a, page_fwd := Some p\<rparr>]\<rparr>)
                 else None)
            | Sending (OnErrs err) a \<Rightarrow>
                (if err_fwd (lanes s ! w) = None
                 then Some (s\<lparr>lanes := (lanes s)[w := (lanes s ! w)
                                 \<lparr>worker := after_send a, err_fwd := Some err\<rparr>]\<rparr>)
                 else None)
            | _ \<Rightarrow> None)
      else None)"
| "step L c out_Write (LoopPage w) s =
     (if status s = Looping \<and> w < length (lanes s)
      then (case page_fwd (lanes s ! w) of
              None \<Rightarrow> None
            | Some p \<Rightarrow>
                Some (on_page L out_Write p
                        (s\<lparr>lanes := (lanes s)[w := (lanes s ! w)\<lparr>page_fwd := None\<rparr>]\<rparr>)))
      else None)"
| "step L c out_Write (LoopError w) s =
     (if status s = Looping \<and> w < length (lanes s)
      then (case err_fwd (lanes s ! w) of
              None \<Rightarrow> None
            | Some err \<Rightarrow>
                Some (on_error err
                        (s\<lparr>lanes := (lanes s)[w := (lanes s ! w)\<lparr>err_fwd := None\<rparr>]\<rparr>)))
      else None)"
| "step L c out_Write LoopPagesClosed s =
     (if status s = Looping \<and> list_all (\<lambda>l. worker l = Gone \<and> page_fwd l = None) (lanes s)
      then Some (s\<lparr>status := Returned None\<rparr>)
      else None)"
| "step L c out_Write LoopErrsClosed s =
     (if status s = Looping \<and> list_all (\<lambda>l. worker l = Gone \<and> err_fwd l = None) (lanes s)
      then Some (s\<lparr>status := Returned None\<rparr>)
      else None)"

fun run :: "neturl \<Rightarrow> crawler \<Rightarrow> writer \<Rightarrow> action list \<Rightarrow> state \<Rightarrow> state option" where
  "run L c out_Write [] s = Some s"
| "run L c out_Write (a # as) s =
     (case step L c out_Write a s of
        None \<Rightarrow> None
      | Some s' \<Rightarrow> run L c out_Write as s')"

text \<open>
  \<open>Crawl L c out_Write rawURL as\<close>: the call \<open>c.Crawl(rawURL, out)\<close> under the schedule
  \<open>as\<close>. \<open>Inl err\<close> is the return before anything is started; \<open>Inr None\<close> says that the
  schedule is not one of this call.
\<close>

definition Crawl :: "neturl \<Rightarrow> crawler \<Rightarrow> writer \<Rightarrow> string \<Rightarrow> action list \<Rightarrow> error + state option" where
  "Crawl L c out_Write rawURL as =
     (case Crawl_start L c rawURL of
        Inl err \<Rightarrow> Inl err
      | Inr s0 \<Rightarrow> Inr (run L c out_Write as s0))"

text \<open>The units of work the counter stands for: URLs being handed over and values in flight.\<close>

definition lane_load :: "lane \<Rightarrow> nat" where
  "lane_load l =
     (case worker l of Sending x a \<Rightarrow> 1 | _ \<Rightarrow> 0)
     + (case page_fwd l of Some p \<Rightarrow> 1 | None \<Rightarrow> 0)
     + (case err_fwd l of Some e \<Rightarrow> 1 | None \<Rightarrow> 0)"

definition outstanding :: "state \<Rightarrow> nat" where
  "outstanding s = length (newURLs_senders s) + sum_list (map lane_load (lanes s))"

section \<open>The loop of \<open>Crawl\<close>, statement by statement\<close>

text \<open>
  The steps above take one round of the loop of \<open>Crawl\<close> as one step. The goroutine
  \<open>go func() { defer close(newURLs); wg.Wait() }()\<close> runs beside the loop, and what it
  sees of the counter depends on the order of the statements of a round. Here a round is
  cut at every statement that acts on the counter or on a channel or that starts a
  goroutine, and the closing goroutine is cut between \<open>wg.Wait()\<close> and \<open>close(newURLs)\<close>,
  so that any goroutine may run between any two of these statements.
  \<^item> \<open>position\<close> is the statement the loop is at: the \<open>select\<close>; the tests of the next
    link of \<open>for _, link := range page.Links\<close> (with the links after it); \<open>wg.Add(1)\<close>
    for a link that has just been stored in \<open>cache\<close>; the \<open>go\<close> statement that starts
    the sender of that link; \<open>wg.Done()\<close>.
  \<^item> \<open>closer\<close> is the statement the closing goroutine is at: \<open>wg.Wait()\<close>; the
    deferred \<open>close(newURLs)\<close>, once \<open>Wait\<close> has returned; or its end.
  \<^item> \<open>shared\<close> is the state of the steps above.
\<close>

datatype position =
    AtSelect
  | AtLink url "url list"
  | AtAdd url "url list"
  | AtGo url "url list"
  | AtDone

datatype closer =
    AtWait
  | AtClose
  | AfterClose

record goroutines =
  shared :: state
  loop_at :: position
  closer_at :: closer

text \<open>Where the \<open>range\<close> over the links goes on: at the next link, or past the loop.\<close>

definition next_link :: "url list \<Rightarrow> position" where
  "next_link links = (case links of [] \<Rightarrow> AtDone | link # rest \<Rightarrow> AtLink link rest)"

text \<open>
  The events.
  \<^item> \<open>Handed i w\<close>, \<open>Ended w\<close>, \<open>Forwarded w\<close>: the steps \<open>Deliver i w\<close>, \<open>RangeEnds w\<close>
    and \<open>Forward w\<close> of the workers and the forwarding goroutines.
  \<^item> \<open>GotPage w\<close>: the \<open>select\<close> receives the page held by the forwarding goroutine of
    lane \<open>w\<close> and \<open>out.Write\<close> is called; if it fails \<open>Crawl\<close> returns its error,
    otherwise the loop is at the first link of the page.
  \<^item> \<open>GotError w\<close>: the \<open>select\<close> receives an error; one that is absorbed is printed and
    \<open>break\<close> takes the loop to \<open>wg.Done()\<close>, any other is returned.
  \<^item> \<open>NextLink\<close>: the two tests on the link; a link that passes is stored in \<open>cache\<close>
    and the loop is at \<open>wg.Add(1)\<close>, otherwise it is at the next link.
  \<^item> \<open>WgAdd\<close>: \<open>wg.Add(1)\<close>.
  \<^item> \<open>GoSend\<close>: \<open>go func(newURL *url.URL) { newURLs <- newURL }(link)\<close>: one more
    goroutine is sending; if the channel is closed its send panics.
  \<^item> \<open>WgDone\<close>: \<open>wg.Done()\<close>, after which the loop is at the \<open>select\<close> again.
  \<^item> \<open>WaitReturns\<close>: \<open>wg.Wait()\<close> returns, which it does only with the counter at zero.
  \<^item> \<open>CloseNewURLs\<close>: \<open>close(newURLs)\<close> runs; a goroutine still sending panics.
  \<^item> \<open>PagesClosed\<close>, \<open>ErrsClosed\<close>: the \<open>select\<close> finds a merged channel closed.
  An event that is not enabled yields \<open>None\<close>.
\<close>

datatype event =
    Handed nat nat
  | Ended nat
  | Forwarded nat
  | GotPage nat
  | GotError nat
  | NextLink
  | WgAdd
  | GoSend
  | WgDone
  | WaitReturns
  | CloseNewURLs
  | PagesClosed
  | ErrsClosed

definition workers_step :: "neturl \<Rightarrow> crawler \<Rightarrow> writer \<Rightarrow> action \<Rightarrow> goroutines \<Rightarrow> goroutines option" where
  "workers_step L c out_Write a g =
     (case step L c out_Write a (shared g) of
        None \<Rightarrow> None
      | Some s' \<Rightarrow> Some (g\<lparr>shared := s'\<rparr>))"

fun advance :: "neturl \<Rightarrow> crawler \<Rightarrow> writer \<Rightarrow> event \<Rightarrow> goroutines \<Rightarrow> goroutines option" where
  "advance L c out_Write (Handed i w) g = workers_step L c out_Write (Deliver i w) g"
| "advance L c out_Write (Ended w) g = workers_step L c out_Write (RangeEnds w) g"
| "advance L c out_Write (Forwarded w) g = workers_step L c out_Write (Forward w) g"
| "advance L c out_Write (GotPage w) g =
     (let s = shared g
      in if status s = Looping \<and> loop_at g = AtSelect \<and> w < length (lanes s)
         then (case page_fwd (lanes s ! w) of
                 None \<Rightarrow> None
               | Some p \<Rightarrow>
                   (let s1 = s\<lparr>lanes := (lanes s)[w := (lanes s ! w)\<lparr>page_fwd := None\<rparr>]\<rparr>
                    in case out_Write (written s) (Marshal L p) of
                         Some err \<Rightarrow> Some (g\<lparr>shared := s1\<lparr>status := Returned (Some err)\<rparr>\<rparr>)
                       | None \<Rightarrow>
                           Some (g\<lparr>shared := s1\<lparr>written := written s @ [Marshal L p]\<rparr>,
                                   loop_at := next_link (Links p)\<rparr>)))
         else None)"
| "advance L c out_Write (GotError w) g =
     (let s = shared g
      in if status s = Looping \<and> loop_at g = AtSelect \<and> w < length (lanes s)
         then (case err_fwd (lanes s ! w) of
                 None \<Rightarrow> None
               | Some err \<Rightarrow>
                   (let s1 = s\<lparr>lanes := (lanes s)[w := (lanes s ! w)\<lparr>err_fwd := None\<rparr>]\<rparr>
                    in if cause_is_ErrHttpStatusCode err
                       then Some (g\<lparr>shared := s1\<lparr>stdout := stdout s @ [err]\<rparr>, loop_at := AtDone\<rparr>)
                       else if net_error_timeout err
                       then Some (g\<lparr>shared := s1\<lparr>stdout := stdout s @ [err]\<rparr>, loop_at := AtDone\<rparr>)
                       else Some (g\<lparr>shared := s1\<lparr>status := Returned (Some err)\<rparr>\<rparr>)))
         else None)"
| "advance L c out_Write NextLink g =
     (let s = shared g
      in case loop_at g of
           AtLink link rest \<Rightarrow>
             (if status s = Looping
              then (if URL_Hostname L link = URL_Hostname L (seedURL s)
                    then (if URL_String L link \<notin> cache s
                          then Some (g\<lparr>shared := s\<lparr>cache := insert (URL_String L link) (cache s)\<rparr>,
                                       loop_at := AtAdd link rest\<rparr>)
                          else Some (g\<lparr>loop_at := next_link rest\<rparr>))
                    else Some (g\<lparr>loop_at := next_link rest\<rparr>))
              else None)
         | _ \<Rightarrow> None)"
| "advance L c out_Write WgAdd g =
     (let s = shared g
      in case loop_at g of
           AtAdd link rest \<Rightarrow>
             (if status s = Looping
              then Some (g\<lparr>shared := s\<lparr>wg := wg s + 1\<rparr>, loop_at := AtGo link rest\<rparr>)
              else None)
         | _ \<Rightarrow> None)"
| "advance L c out_Write GoSend g =
     (let s = shared g
      in case loop_at g of
           AtGo link rest \<Rightarrow>
             (if status s = Looping
              then Some (g\<lparr>shared :=
                             (if newURLs_closed s
                              then s\<lparr>newURLs_senders := newURLs_senders s @ [link],
                                     status := Crashed SendOnClosedChannel\<rparr>
                              else s\<lparr>newURLs_senders := newURLs_senders s @ [link]\<rparr>),
                           loop_at := next_link rest\<rparr>)
              else None)
         | _ \<Rightarrow> None)"
| "advance L c out_Write WgDone g =
     (let s = shared g
      in if status s = Looping \<and> loop_at g = AtDone
         then Some (g\<lparr>shared := wg_Done s, loop_at := AtSelect\<rparr>)
         else None)"
| "advance L c out_Write WaitReturns g =
     (let s = shared g
      in if status s = Looping \<and> closer_at g = AtWait \<and> wg s = 0
         then Some (g\<lparr>closer_at := AtClose\<rparr>)
         else None)"
| "advance L c out_Write CloseNewURLs g =
     (let s = shared g
      in if status s = Looping \<and> closer_at g = AtClose
         then Some (g\<lparr>shared :=
                        (if newURLs_senders s = [] then s\<lparr>newURLs_closed := True\<rparr>
                         else s\<lparr>newURLs_closed := True, status := Crashed SendOnClosedChannel\<rparr>),
                      closer_at := AfterClose\<rparr>)
         else None)"
| "advance L c out_Write PagesClosed g =
     (if loop_at g = AtSelect then workers_step L c out_Write LoopPagesClosed g else None)"
| "advance L c out_Write ErrsClosed g =
     (if loop_at g = AtSelect then workers_step L c out_Write LoopErrsClosed g else None)"

fun advance_all :: "neturl \<Rightarrow> crawler \<Rightarrow> writer \<Rightarrow> event list \<Rightarrow> goroutines \<Rightarrow> goroutines option" where
  "advance_all L c out_Write [] g = Some g"
| "advance_all L c out_Write (e # es) g =
     (case advance L c out_Write e g of
        None \<Rightarrow> None
      | Some g' \<Rightarrow> advance_all L c out_Write es g')"

text \<open>
  \<open>Crawl_events L c out_Write rawURL es\<close>: the call \<open>c.Crawl(rawURL, out)\<close> under the
  sequence of events \<open>es\<close>, from the state in which the loop is at its \<open>select\<close> and the
  closing goroutine at \<open>wg.Wait()\<close>.
\<close>

definition Crawl_events :: "neturl \<Rightarrow> crawler \<Rightarrow> writer \<Rightarrow> string \<Rightarrow> event list \<Rightarrow> error + goroutines option" where
  "Crawl_events L c out_Write rawURL es =
     (case Crawl_start L c rawURL of
        Inl err \<Rightarrow> Inl err
      | Inr s0 \<Rightarrow>
          Inr (advance_all L c out_Write es \<lparr>shared = s0, loop_at = AtSelect, closer_at = AtWait\<rparr>))"

text \<open>
  A step of section \<open>Crawl\<close> as a sequence of events. \<open>link_events\<close> are the events of
  \<open>for _, link := range page.Links\<close>, \<open>events_of\<close> those of one step, \<open>interleaving\<close>
  those of a run, and \<open>between_loop_rounds s\<close> is the state \<open>s\<close> of such a run: the loop
  is at its \<open>select\<close>, and the closing goroutine at \<open>wg.Wait()\<close> or at its end.
\<close>

fun link_events :: "neturl \<Rightarrow> url list \<Rightarrow> state \<Rightarrow> event list" where
  "link_events L [] s = []"
| "link_events L (link # links) s =
     (if URL_Hostname L link = URL_Hostname L (seedURL s)
      then (if URL_String L link \<notin> cache s
            then [NextLink, WgAdd, GoSend]
                 @ link_events L links
                     (s\<lparr>cache := insert (URL_String L link) (cache s),
                        wg := wg s + 1,
                        newURLs_senders := newURLs_senders s @ [link]\<rparr>)
            else NextLink # link_events L links s)
      else NextLink # link_events L links s)"

definition events_of :: "neturl \<Rightarrow> writer \<Rightarrow> action \<Rightarrow> state \<Rightarrow> event list" where
  "events_of L out_Write a s =
     (case a of
        Deliver i w \<Rightarrow> [Handed i w]
      | CloseFrontier \<Rightarrow> [WaitReturns, CloseNewURLs]
      | RangeEnds w \<Rightarrow> [Ended w]
      | Forward w \<Rightarrow> [Forwarded w]
      | LoopPage w \<Rightarrow>
          (case page_fwd (lanes s ! w) of
             None \<Rightarrow> []
           | Some p \<Rightarrow>
               (case out_Write (written s) (Marshal L p) of
                  Some err \<Rightarrow> [GotPage w]
                | None \<Rightarrow> GotPage w # link_events L (Links p) s @ [WgDone]))
      | LoopError w \<Rightarrow>
          (case err_fwd (lanes s ! w) of
             None \<Rightarrow> []
           | Some err \<Rightarrow>
               if cause_is_ErrHttpStatusCode err \<or> net_error_timeout err
               then [GotError w, WgDone] else [GotError w])
      | LoopPagesClosed \<Rightarrow> [PagesClosed]
      | LoopErrsClosed \<Rightarrow> [ErrsClosed])"

fun interleaving :: "neturl \<Rightarrow> crawler \<Rightarrow> writer \<Rightarrow> action list \<Rightarrow> state \<Rightarrow> event list" where
  "interleaving L c out_Write [] s = []"
| "interleaving L c out_Write (a # as) s =
     events_of L out_Write a s
     @ (case step L c out_Write a s of
          None \<Rightarrow> []
        | Some s' \<Rightarrow> interleaving L c out_Write as s')"

definition between_loop_rounds :: "state \<Rightarrow> goroutines" where
  "between_loop_rounds s =
     \<lparr>shared = s, loop_at = AtSelect,
      closer_at = (if newURLs_closed s then AfterClose else AtWait)\<rparr>"

section \<open>The entry point\<close>

text \<open>
  \<open>strconv.Atoi\<close> of the standard library on a 64-bit platform: an optional sign, then
  one or more decimal digits, and the value must fit \<open>int\<close>.
\<close>

fun digits_value :: "string \<Rightarrow> nat \<Rightarrow> nat option" where
  "digits_value [] acc = Some acc"
| "digits_value (c # cs) acc =
     (let n = (of_char c :: nat)
      in if 48 \<le> n \<and> n \<le> 57 then digits_value cs (10 * acc + (n - 48)) else None)"

definition Atoi :: "string \<Rightarrow> int option" where
  "Atoi s =
     (let neg = (s \<noteq> [] \<and> hd s = CHR ''-'');
          ds = (if s \<noteq> [] \<and> (hd s = CHR ''-'' \<or> hd s = CHR ''+'') then tl s else s)
      in if ds = [] then None
         else (case digits_value ds 0 of
                 None \<Rightarrow> None
               | Some n \<Rightarrow>
                   (let v = (if neg then - int n else int n)
                    in if - (2 ^ 63) \<le> v \<and> v < 2 ^ 63 then Some v else None)))"

text \<open>
  \<open>main\<close> up to its call of \<open>Crawl\<close>. \<open>getenv\<close> is \<open>os.Getenv\<close>. \<open>log.Fatalf\<close> ends the
  process with the message (\<open>Fatal\<close>); otherwise \<open>main\<close> calls \<open>Crawl\<close> on a crawler with
  the worker count read and the URL read (\<open>Calls_Crawl\<close>).
\<close>

datatype main_result =
    Fatal string
  | Calls_Crawl int string

definition mustGetEnv :: "(string \<Rightarrow> string) \<Rightarrow> string \<Rightarrow> string option" where
  "mustGetEnv getenv k = (let v = getenv k in if v = '''' then None else Some v)"

definition main :: "(string \<Rightarrow> string) \<Rightarrow> main_result" where
  "main getenv =
     (case mustGetEnv getenv ''WORKERS'' of
        None \<Rightarrow> Fatal ''env var 'WORKERS' not set''
      | Some workersStr \<Rightarrow>
          (case Atoi workersStr of
             None \<Rightarrow> Fatal (''env var 'WORKERS' is non-numeric: '' @ workersStr)
           | Some workers \<Rightarrow>
               if workers = 0
               then Fatal ''env var 'WORKERS' must be greater than zero: 0''
               else (case mustGetEnv getenv ''URL'' of
                       None \<Rightarrow> Fatal ''env var 'URL' not set''
                     | Some u \<Rightarrow> Calls_Crawl workers u)))"

section \<open>Notions used in the statements\<close>

text \<open>
  The \<open>href\<close> values \<open>collectLinks\<close> hands to \<open>formatURL\<close>, in document order: those of
  the tokens whose \<open>Data\<close> is \<open>a\<close>.
\<close>

definition hrefs :: "token list \<Rightarrow> string list" where
  "hrefs r = concat (map (\<lambda>tag. map Val (filter (\<lambda>attr. Key attr = ''href'') (Attr tag)))
                         (filter (\<lambda>tag. Data tag = ''a'') r))"

text \<open>\<open>formatURL\<close> applied to a sequence of \<open>href\<close> values, appending what it keeps.\<close>

fun format_all :: "neturl \<Rightarrow> url \<Rightarrow> string list \<Rightarrow> url list \<Rightarrow> url list result" where
  "format_all L pageURL [] links = Return links"
| "format_all L pageURL (h # hs) links =
     (case formatURL L pageURL h of
        Panic err \<Rightarrow> Panic err
      | Return None \<Rightarrow> format_all L pageURL hs links
      | Return (Some link) \<Rightarrow> format_all L pageURL hs (links @ [link]))"

text \<open>
  Section 4.2 and 7 of the specification name an error by the stage of the fetch that
  produced it. \<open>spec_classification\<close> follows those words: a transport failure is
  \<open>transport-timeout\<close> or \<open>transport-other\<close> depending on whether it is a timeout, a
  response with status at least 400 is \<open>http-status\<close>, and any failure to read or close
  the body is \<open>body-read\<close>; \<open>None\<close> is a fetch that yields a page. \<open>spec_recoverable\<close>
  is the specification's split into recoverable and fatal classes.
\<close>

datatype classification = transport_timeout | transport_other | http_status | body_read

definition spec_classification :: "error + response \<Rightarrow> classification option" where
  "spec_classification got =
     (case got of
        Inl err \<Rightarrow> Some (if net_error_timeout err then transport_timeout else transport_other)
      | Inr resp \<Rightarrow>
          if StatusCode resp \<ge> 400 then Some http_status
          else (case Body_Read resp of
                  Inl err \<Rightarrow> Some body_read
                | Inr buf \<Rightarrow> (case Body_Close resp of Some err \<Rightarrow> Some body_read | None \<Rightarrow> None)))"

fun spec_recoverable :: "classification \<Rightarrow> bool" where
  "spec_recoverable transport_timeout = True"
| "spec_recoverable http_status = True"
| "spec_recoverable transport_other = False"
| "spec_recoverable body_read = False"

text \<open>
  The URLs the model of \<open>net/url\<close> produces. \<open>well_formed\<close>: no field holds a delimiter
  that ends it when the URL is printed and parsed again, a forced query mark comes with an
  empty query, and an opaque URL has a scheme and neither host nor path. \<open>tidy\<close>: the
  path is empty or rooted, and \<open>resolvePath\<close> leaves it as it is.
\<close>

definition well_formed :: "url \<Rightarrow> bool" where
  "well_formed u \<longleftrightarrow>
     CHR ''/'' \<notin> set (Host u) \<and> CHR ''?'' \<notin> set (Host u) \<and> CHR ''#'' \<notin> set (Host u)
     \<and> CHR ''?'' \<notin> set (Path u) \<and> CHR ''#'' \<notin> set (Path u)
     \<and> CHR ''?'' \<notin> set (Opaque u) \<and> CHR ''#'' \<notin> set (Opaque u)
     \<and> \<not> has_prefix ''/'' (Opaque u)
     \<and> CHR ''#'' \<notin> set (RawQuery u)
     \<and> (ForceQuery u \<longrightarrow> RawQuery u = '''')
     \<and> (Opaque u \<noteq> '''' \<longrightarrow> Scheme u \<noteq> '''' \<and> Host u = '''' \<and> Path u = '''')"

definition tidy :: "url \<Rightarrow> bool" where
  "tidy u \<longleftrightarrow>
     (Path u = '''' \<or> hd (Path u) = CHR ''/'') \<and> resolvePath (Path u) '''' = Path u"







text \<open>
  The bookkeeping of the counter: while the loop runs the counter is the number of units
  of work outstanding; the frontier is closed only with the counter at zero and nothing
  being sent on it; an error is returned only with the frontier open and the counter
  positive; and the process dies neither of a negative counter nor of a send on the
  closed frontier.
\<close>

definition accounted :: "state \<Rightarrow> bool" where
  "accounted s \<longleftrightarrow>
     (status s = Looping \<longrightarrow> wg s = int (outstanding s))
     \<and> (newURLs_closed s \<longrightarrow> wg s = 0 \<and> newURLs_senders s = [])
     \<and> (\<forall>err. status s = Returned (Some err) \<longrightarrow> \<not> newURLs_closed s \<and> 0 < wg s)
     \<and> status s \<noteq> Crashed NegativeWaitGroupCounter
     \<and> status s \<noteq> Crashed SendOnClosedChannel"






section \<open>Concrete inputs\<close>

text \<open>The base URL of the repository's \<open>TestFormatURL\<close>, and URLs of a test host.\<close>

definition dummyURL :: url where
  "dummyURL = \<lparr>Scheme = ''http'', Opaque = '''', Host = ''www.google.com'', Path = ''/one/two'',
               ForceQuery = False, RawQuery = '''', Fragment = ''''\<rparr>"

definition http_url :: "string \<Rightarrow> string \<Rightarrow> url" where
  "http_url host path = \<lparr>Scheme = ''http'', Opaque = '''', Host = host, Path = path,
                         ForceQuery = False, RawQuery = '''', Fragment = ''''\<rparr>"

text \<open>The token of \<open><a href="h">\<close>.\<close>

definition anchor :: "string \<Rightarrow> token" where
  "anchor h = \<lparr>Data = ''a'', Attr = [\<lparr>Namespace = '''', Key = ''href'', Val = h\<rparr>]\<rparr>"

definition ok_page :: "token list \<Rightarrow> error + response" where
  "ok_page body = Inr \<lparr>StatusCode = 200, Body_Read = Inr body, Body_Close = None\<rparr>"

text \<open>A writer that accepts everything (\<open>ioutil.Discard\<close> in the benchmark).\<close>

definition Discard :: writer where
  "Discard accepted bytes = None"

text \<open>A site whose every page is \<open><a href="/">\<close>.\<close>

definition self_link_client :: httpClient where
  "self_link_client u = ok_page [anchor ''/'']"

text \<open>A client whose every \<open>Get\<close> fails with an error that is not a timeout.\<close>

definition refusing_client :: httpClient where
  "refusing_client u = Inl (OtherError ''connection refused'')"

text \<open>A client that times out on \<open>http://h.test/a\<close> and serves an empty page elsewhere.\<close>

definition timeout_on_a_client :: httpClient where
  "timeout_on_a_client u =
     (if u = ''http://h.test/a'' then Inl (NetError True ''Client.Timeout exceeded'')
      else ok_page [])"

text \<open>
  A client whose response has status 200 and whose body read runs into the client's
  timeout: the error of \<open>io.Copy\<close> is a \<open>net.Error\<close> whose \<open>Timeout()\<close> is true.
\<close>

definition body_timeout_client :: httpClient where
  "body_timeout_client u =
     Inr \<lparr>StatusCode = 200,
          Body_Read = Inl (NetError True ''Client.Timeout exceeded while reading body''),
          Body_Close = None\<rparr>"

text \<open>A server that answers every request with status 500.\<close>

definition server_error_client :: httpClient where
  "server_error_client u = Inr \<lparr>StatusCode = 500, Body_Read = Inr [], Body_Close = None\<rparr>"

text \<open>A writer whose every \<open>Write\<close> fails.\<close>

definition broken_writer :: writer where
  "broken_writer accepted bytes = Some (OtherError ''write failed'')"

text \<open>The environment \<open>WORKERS=-1 URL=http://h.test/\<close>.\<close>

definition negative_workers_env :: "string \<Rightarrow> string" where
  "negative_workers_env k =
     (if k = ''WORKERS'' then ''-1'' else if k = ''URL'' then ''http://h.test/'' else '''')"

section \<open>The model of \<open>net/url\<close> on the repository's tests\<close>

lemmas go_defs = go_neturl_def go_URL_Parse_def go_url_Parse_def parse_no_fragment_def
  getscheme_def is_letter_def is_digit_plus_minus_dot_def to_lower_def ResolveReference_def
  resolvePath_def drop_dots_def go_URL_String_def go_URL_Hostname_def Let_def

text \<open>
  The table of \<open>TestFormatURL\<close> (file \<open>crawler_test.go\<close>): the base is
  \<open>http://www.google.com/one/two\<close>, and the test compares \<open>String()\<close> of the result.
\<close>

lemma TestFormatURL_absolute:
  "formatURL go_neturl dummyURL ''http://www.test.com'' = Return (Some (http_url ''www.test.com'' ''''))
   \<and> URL_String go_neturl (http_url ''www.test.com'' '''') = ''http://www.test.com''"
  by (simp add: formatURL_def go_defs http_url_def dummyURL_def)

lemma TestFormatURL_relative:
  "formatURL go_neturl dummyURL ''test'' = Return (Some (http_url ''www.google.com'' ''/one/test''))
   \<and> URL_String go_neturl (http_url ''www.google.com'' ''/one/test'') = ''http://www.google.com/one/test''"
  by (simp add: formatURL_def go_defs http_url_def dummyURL_def)

lemma TestFormatURL_relative_parent:
  "formatURL go_neturl dummyURL ''../../test'' = Return (Some (http_url ''www.google.com'' ''/test''))
   \<and> URL_String go_neturl (http_url ''www.google.com'' ''/test'') = ''http://www.google.com/test''"
  by (simp add: formatURL_def go_defs http_url_def dummyURL_def)

lemma TestFormatURL_root:
  "formatURL go_neturl dummyURL ''/test'' = Return (Some (http_url ''www.google.com'' ''/test''))"
  by (simp add: formatURL_def go_defs http_url_def dummyURL_def)

lemma TestFormatURL_anchor:
  "formatURL go_neturl dummyURL ''#test'' = Return (Some dummyURL)
   \<and> URL_String go_neturl dummyURL = ''http://www.google.com/one/two''"
  by (simp add: formatURL_def go_defs dummyURL_def)

lemma TestFormatURL_mailto:
  "formatURL go_neturl dummyURL ''mailto:test@test.com'' = Return None"
  by (simp add: formatURL_def go_defs dummyURL_def)

text \<open>The case \<open>multiple\<close> of \<open>TestCollectLinks\<close>, whose base is \<open>http://www.google.com\<close>.\<close>

lemma TestCollectLinks_multiple:
  "collectLinks go_neturl (http_url ''www.google.com'' '''') [anchor ''test1'', anchor ''test2'']
     = Return [http_url ''www.google.com'' ''/test1'', http_url ''www.google.com'' ''/test2'']"
  by (simp add: collectLinks_def anchor_def formatURL_def go_defs http_url_def)

section \<open>Link extraction: what \<open>collectLinks\<close> computes\<close>

lemma format_all_append:
  "format_all L p (xs @ ys) links =
     (case format_all L p xs links of
        Panic err \<Rightarrow> Panic err
      | Return links' \<Rightarrow> format_all L p ys links')"
  by (induction xs arbitrary: links) (auto split: result.splits option.splits)

lemma collect_attrs_format_all:
  "collect_attrs L p as links =
     format_all L p (map Val (filter (\<lambda>attr. Key attr = ''href'') as)) links"
  by (induction as arbitrary: links) (auto split: result.splits option.splits)

lemma collect_tokens_format_all:
  "collect_tokens L p r links = format_all L p (hrefs r) links"
proof (induction r arbitrary: links)
  case Nil
  show ?case by (simp add: hrefs_def)
next
  case (Cons tag r)
  have h: "hrefs (tag # r) =
      (if Data tag = ''a'' then map Val (filter (\<lambda>attr. Key attr = ''href'') (Attr tag)) else [])
      @ hrefs r"
    by (simp add: hrefs_def)
  show ?case
    by (simp add: h format_all_append collect_attrs_format_all Cons.IH split: result.splits)
qed

lemma collectLinks_format_all: "collectLinks L p r = format_all L p (hrefs r) []"
  by (simp add: collectLinks_def collect_tokens_format_all)

lemma formatURL_Panic_iff: "formatURL L p h = Panic err \<longleftrightarrow> URL_Parse L p h = Inl err"
  by (auto simp: formatURL_def split: sum.splits)

lemma format_all_Return_iff:
  "(\<exists>ls. format_all L p hs links = Return ls) \<longleftrightarrow> (\<forall>h\<in>set hs. \<exists>u. URL_Parse L p h = Inr u)"
proof (induction hs arbitrary: links)
  case Nil
  show ?case by simp
next
  case (Cons h hs)
  show ?case
  proof (cases "URL_Parse L p h")
    case (Inl err)
    then show ?thesis by (simp add: formatURL_def)
  next
    case (Inr u)
    then show ?thesis using Cons.IH by (simp add: formatURL_def)
  qed
qed

lemma format_all_Panic_iff:
  "(\<exists>err. format_all L p hs links = Panic err)
     \<longleftrightarrow> (\<exists>h\<in>set hs. \<exists>err. URL_Parse L p h = Inl err)"
proof -
  have "(\<exists>err. format_all L p hs links = Panic err)
          \<longleftrightarrow> \<not> (\<exists>ls. format_all L p hs links = Return ls)"
    by (cases "format_all L p hs links") auto
  also have "\<dots> \<longleftrightarrow> \<not> (\<forall>h\<in>set hs. \<exists>u. URL_Parse L p h = Inr u)"
    by (simp only: format_all_Return_iff)
  also have "\<dots> \<longleftrightarrow> (\<exists>h\<in>set hs. \<exists>err. URL_Parse L p h = Inl err)"
    by (metis sum.exhaust sum.distinct(1))
  finally show ?thesis .
qed

text \<open>A property of everything \<open>formatURL\<close> keeps holds of every link collected.\<close>

lemma format_all_kept:
  "format_all L p hs links = Return ls \<Longrightarrow> \<forall>l\<in>set links. P l \<Longrightarrow>
   (\<And>h l. formatURL L p h = Return (Some l) \<Longrightarrow> P l) \<Longrightarrow> \<forall>l\<in>set ls. P l"
proof (induction hs arbitrary: links)
  case Nil
  then show ?case by simp
next
  case (Cons h hs)
  show ?case
  proof (cases "formatURL L p h")
    case (Panic err)
    with Cons.prems(1) show ?thesis by simp
  next
    case (Return r)
    show ?thesis
    proof (cases r)
      case None
      with Return Cons.prems(1) have "format_all L p hs links = Return ls" by simp
      from Cons.IH[OF this Cons.prems(2) Cons.prems(3)] show ?thesis .
    next
      case (Some l)
      with Return Cons.prems(1) have a: "format_all L p hs (links @ [l]) = Return ls" by simp
      have "P l" using Cons.prems(3) Return Some by blast
      then have b: "\<forall>x\<in>set (links @ [l]). P x" using Cons.prems(2) by simp
      from Cons.IH[OF a b Cons.prems(3)] show ?thesis .
    qed
  qed
qed

lemma formatURL_kept_scheme:
  "formatURL L p h = Return (Some l) \<Longrightarrow> Scheme l = ''http'' \<or> Scheme l = ''https''"
  by (auto simp: formatURL_def split: sum.splits if_splits)

lemma formatURL_kept_fragment:
  "formatURL L p h = Return (Some l) \<Longrightarrow> Fragment l = ''''"
  by (auto simp: formatURL_def split: sum.splits if_splits)

section \<open>The model of \<open>net/url\<close> reads back what it prints\<close>



lemma cut_fst_notin: "c \<notin> set (fst (cut c s))"
  by (induction s) (auto split: prod.splits)

lemma cut_fst_subset: "set (fst (cut c s)) \<subseteq> set s"
  by (induction s) (auto split: prod.splits)

lemma cut_snd_subset: "snd (cut c s) = Some a \<Longrightarrow> set a \<subseteq> set s"
  by (induction s arbitrary: a) (auto split: prod.splits if_splits)

lemma getscheme_loop_rest:
  "getscheme_loop raw seen s = Inr (scheme, rest) \<Longrightarrow> set rest \<subseteq> set raw \<union> set s"
  by (induction raw seen s rule: getscheme_loop.induct) (auto split: if_splits)

lemma getscheme_rest: "getscheme raw = Inr (scheme, rest) \<Longrightarrow> set rest \<subseteq> set raw"
  using getscheme_loop_rest[of raw "[]" raw scheme rest] by (simp add: getscheme_def)

lemma butlast_without_last:
  assumes "xs \<noteq> []" and "last xs = c" and "count_list xs c = 1"
  shows "c \<notin> set (butlast xs)"
proof -
  from assms(1) have "butlast xs @ [last xs] = xs" by (rule append_butlast_last_id)
  then have "butlast xs @ [c] = xs" unfolding assms(2) .
  then have "count_list xs c = count_list (butlast xs @ [c]) c" by simp
  also have "\<dots> = count_list (butlast xs) c + 1" by simp
  finally have "count_list (butlast xs) c = 0" using assms(3) by simp
  then show ?thesis by (simp add: count_list_0_iff)
qed

lemma split_not_Nil: "split c s \<noteq> []"
  by (induction s) (auto split: list.splits)

lemma join_Cons_Cons: "join c ((x # y) # ys) = x # join c (y # ys)"
  by (cases ys) simp_all

lemma join_split: "join c (split c s) = s"
proof (induction s)
  case Nil
  show ?case by simp
next
  case (Cons x s)
  show ?case
  proof (cases "x = c")
    case True
    obtain y ys where "split c s = y # ys" using split_not_Nil[of c s] by (cases "split c s") auto
    with True Cons.IH show ?thesis by simp
  next
    case False
    obtain y ys where "split c s = y # ys" using split_not_Nil[of c s] by (cases "split c s") auto
    with False Cons.IH show ?thesis by (simp add: join_Cons_Cons)
  qed
qed

lemma split_free: "c \<notin> set x \<Longrightarrow> split c x = [x]"
  by (induction x) auto

lemma split_append: "c \<notin> set x \<Longrightarrow> split c (x @ c # s) = x # split c s"
  by (induction x) auto

lemma split_join:
  "xs \<noteq> [] \<Longrightarrow> \<forall>e\<in>set xs. c \<notin> set e \<Longrightarrow> split c (join c xs) = xs"
proof (induction c xs rule: join.induct)
  case (1 c)
  then show ?case by simp
next
  case (2 c x)
  then show ?case by (simp add: split_free)
next
  case (3 c x y ys)
  then show ?case by (simp add: split_append)
qed

lemma split_elems_free: "\<forall>e\<in>set (split c s). c \<notin> set e"
  by (induction s) (auto split: list.splits)

lemma split_elems_subset: "\<forall>e\<in>set (split c s). set e \<subseteq> set s"
  by (induction s) (auto split: list.splits)

lemma join_subset: "set (join c xs) \<subseteq> (\<Union>e\<in>set xs. set e) \<union> {c}"
  by (induction c xs rule: join.induct) auto

lemma foldl_drop_dots_elems:
  "set (foldl drop_dots acc src) \<subseteq> set acc \<union> (set src - {''.'', ''..''}) \<union> {[]}"
proof (induction src arbitrary: acc)
  case Nil
  show ?case by auto
next
  case (Cons e src)
  have "set (drop_dots acc e) \<subseteq> set acc \<union> ({e} - {''.'', ''..''}) \<union> {[]}"
    using in_set_butlastD[of _ acc] by (auto simp: drop_dots_def)
  with Cons.IH[of "drop_dots acc e"] show ?case by auto
qed

lemma foldl_drop_dots_id:
  "''.'' \<notin> set src \<Longrightarrow> ''..'' \<notin> set src \<Longrightarrow> foldl drop_dots acc src = acc @ src"
  by (induction src arbitrary: acc) (auto simp: drop_dots_def)

text \<open>The elements \<open>resolvePath\<close> writes hold no dot segment when they are split again.\<close>

lemma tidy_out:
  assumes D: "\<forall>e\<in>set D. CHR ''/'' \<notin> set e \<and> e \<noteq> ''.'' \<and> e \<noteq> ''..''"
  defines "joined \<equiv> join (CHR ''/'') D"
  defines "X \<equiv> (if has_prefix ''/'' joined then tl joined else joined)"
  shows "\<forall>e\<in>set (split (CHR ''/'') X). e \<noteq> ''.'' \<and> e \<noteq> ''..''"
proof (cases D)
  case Nil
  then show ?thesis by (simp add: X_def joined_def)
next
  case (Cons x D2)
  show ?thesis
  proof (cases "has_prefix ''/'' joined")
    case False
    then have "X = join (CHR ''/'') D" by (simp add: X_def joined_def)
    moreover have "split (CHR ''/'') (join (CHR ''/'') D) = D"
      using split_join[of D "CHR ''/''"] D Cons by simp
    ultimately show ?thesis using D by simp
  next
    case True
    have xfree: "CHR ''/'' \<notin> set x" using D Cons by simp
    show ?thesis
    proof (cases D2)
      case Nil
      with Cons True xfree show ?thesis by (cases x) (simp_all add: joined_def)
    next
      case (Cons y ys)
      with \<open>D = x # D2\<close> have j: "joined = x @ CHR ''/'' # join (CHR ''/'') (y # ys)"
        by (simp add: joined_def)
      with True xfree have "x = []" by (cases x) simp_all
      with j True have "X = join (CHR ''/'') (y # ys)" by (simp add: X_def)
      moreover have "split (CHR ''/'') (join (CHR ''/'') (y # ys)) = y # ys"
        using split_join[of "y # ys" "CHR ''/''"] D \<open>D = x # D2\<close> Cons by simp
      ultimately show ?thesis using D \<open>D = x # D2\<close> Cons by simp
    qed
  qed
qed

lemma resolvePath_idem: "resolvePath (resolvePath base ref) [] = resolvePath base ref"
proof -
  define full where "full = (if ref = [] then base
                  else if hd ref \<noteq> CHR ''/''
                    then rev (dropWhile (\<lambda>c. c \<noteq> CHR ''/'') (rev base)) @ ref
                  else ref)"
  show ?thesis
  proof (cases "full = []")
    case True
    then have "resolvePath base ref = []" by (simp add: resolvePath_def full_def Let_def)
    then show ?thesis by (simp add: resolvePath_def)
  next
    case False
    define src where "src = split (CHR ''/'') full"
    define dst where "dst = foldl drop_dots [] src"
    define D where "D = (if last src = ''.'' \<or> last src = ''..''
                         then (if dst = [] then ['''', ''''] else dst @ [''''])
                         else dst)"
    define joined where "joined = join (CHR ''/'') D"
    define X where "X = (if has_prefix ''/'' joined then tl joined else joined)"
    have out: "resolvePath base ref = CHR ''/'' # X"
      using False by (simp add: resolvePath_def full_def[symmetric] Let_def src_def dst_def D_def joined_def X_def)
    have "set dst \<subseteq> (set src - {''.'', ''..''}) \<union> {[]}"
      using foldl_drop_dots_elems[of "[]" src] by (simp add: dst_def)
    then have Dp: "\<forall>e\<in>set D. CHR ''/'' \<notin> set e \<and> e \<noteq> ''.'' \<and> e \<noteq> ''..''"
      using split_elems_free[of "CHR ''/''" full] by (auto simp: D_def src_def)
    let ?E = "split (CHR ''/'') (CHR ''/'' # X)"
    have E: "?E = [] # split (CHR ''/'') X" by simp
    have nd: "\<forall>e\<in>set (split (CHR ''/'') X). e \<noteq> ''.'' \<and> e \<noteq> ''..''"
      using tidy_out[OF Dp] by (simp add: X_def joined_def)
    then have nodots: "''.'' \<notin> set ?E" "''..'' \<notin> set ?E" by auto
    have "?E \<noteq> []" by (rule split_not_Nil)
    then have "last ?E \<in> set ?E" by (rule last_in_set)
    with nodots have lastE: "last ?E \<noteq> ''.'' \<and> last ?E \<noteq> ''..''"
      by (auto simp del: split.simps)
    have f: "foldl drop_dots [] ?E = ?E" using foldl_drop_dots_id[OF nodots, of "[]"] by simp
    have j: "join (CHR ''/'') ?E = CHR ''/'' # X" by (rule join_split)
    have "resolvePath (CHR ''/'' # X) [] = CHR ''/'' # X"
      using lastE by (simp add: resolvePath_def Let_def f j del: split.simps foldl.simps)
    with out show ?thesis by simp
  qed
qed

lemma resolvePath_rooted: "resolvePath base ref = [] \<or> hd (resolvePath base ref) = CHR ''/''"
  by (simp add: resolvePath_def Let_def)

lemma resolvePath_chars: "set (resolvePath base ref) \<subseteq> set base \<union> set ref \<union> {CHR ''/''}"
proof -
  define full where "full = (if ref = [] then base
                  else if hd ref \<noteq> CHR ''/''
                    then rev (dropWhile (\<lambda>c. c \<noteq> CHR ''/'') (rev base)) @ ref
                  else ref)"
  have fs: "set full \<subseteq> set base \<union> set ref"
    using set_dropWhileD[of _ "\<lambda>c. c \<noteq> CHR ''/''" "rev base"] by (auto simp: full_def)
  show ?thesis
  proof (cases "full = []")
    case True
    then have "resolvePath base ref = []" by (simp add: resolvePath_def full_def Let_def)
    then show ?thesis by simp
  next
    case False
    define src where "src = split (CHR ''/'') full"
    define dst where "dst = foldl drop_dots [] src"
    define D where "D = (if last src = ''.'' \<or> last src = ''..''
                         then (if dst = [] then ['''', ''''] else dst @ [''''])
                         else dst)"
    define joined where "joined = join (CHR ''/'') D"
    define X where "X = (if has_prefix ''/'' joined then tl joined else joined)"
    have out: "resolvePath base ref = CHR ''/'' # X"
      using False by (simp add: resolvePath_def full_def[symmetric] Let_def src_def dst_def D_def joined_def X_def)
    have "set dst \<subseteq> set src \<union> {[]}"
      using foldl_drop_dots_elems[of "[]" src] by (auto simp: dst_def)
    moreover have "\<forall>e\<in>set src \<union> {[]}. set e \<subseteq> set full"
      using split_elems_subset[of "CHR ''/''" full] by (simp add: src_def)
    ultimately have "\<forall>e\<in>set dst. set e \<subseteq> set full" by blast
    then have "\<forall>e\<in>set D. set e \<subseteq> set full" by (simp add: D_def)
    then have "set joined \<subseteq> set full \<union> {CHR ''/''}"
      using join_subset[of "CHR ''/''" D] by (auto simp: joined_def)
    moreover have "set X \<subseteq> set joined" by (cases joined) (auto simp: X_def)
    ultimately show ?thesis using out fs by auto
  qed
qed

lemma no_prefix_Nil: "\<not> has_prefix (x # xs) []"
  by simp

lemma parse_no_fragment_wf:
  assumes "parse_no_fragment r = Inr u" and "CHR ''#'' \<notin> set r"
  shows "well_formed u \<and> Fragment u = ''''"
proof (cases "r = ''*''")
  case True
  with assms show ?thesis by (auto simp: parse_no_fragment_def well_formed_def)
next
  case False
  from assms(1) False obtain scheme0 rest0 where g: "getscheme r = Inr (scheme0, rest0)"
    by (auto simp: parse_no_fragment_def split: sum.splits)
  from getscheme_rest[OF g] assms(2) have r0: "CHR ''#'' \<notin> set rest0" by auto
  let ?force = "rest0 \<noteq> [] \<and> last rest0 = CHR ''?'' \<and> count_list rest0 (CHR ''?'') = 1"
  let ?rest = "if ?force then butlast rest0 else fst (cut (CHR ''?'') rest0)"
  let ?query = "if ?force then [] else (case snd (cut (CHR ''?'') rest0) of
                                                        None \<Rightarrow> [] | Some q \<Rightarrow> q)"
  have rq: "CHR ''?'' \<notin> set ?rest"
    using butlast_without_last[of rest0 "CHR ''?''"] cut_fst_notin[of "CHR ''?''" rest0]
    by auto
  have rs: "set ?rest \<subseteq> set rest0"
    using cut_fst_subset[of "CHR ''?''" rest0] in_set_butlastD[of _ rest0]
    by auto
  then have rh: "CHR ''#'' \<notin> set ?rest" using r0 by blast
  have qh: "CHR ''#'' \<notin> set ?query"
  proof (cases "snd (cut (CHR ''?'') rest0)")
    case None
    then show ?thesis by simp
  next
    case (Some q)
    from cut_snd_subset[OF Some] r0 have "CHR ''#'' \<notin> set q" by auto
    with Some show ?thesis by simp
  qed
  have d2: "set (drop 2 ?rest) \<subseteq> set ?rest" by (rule set_drop_subset)
  have ca: "CHR ''/'' \<notin> set (fst (cut (CHR ''/'') (drop 2 ?rest)))" by (rule cut_fst_notin)
  have cs: "set (fst (cut (CHR ''/'') (drop 2 ?rest))) \<subseteq> set ?rest"
    using cut_fst_subset[of "CHR ''/''" "drop 2 ?rest"] d2 by blast
  have cp: "\<And>p. snd (cut (CHR ''/'') (drop 2 ?rest)) = Some p \<Longrightarrow> set p \<subseteq> set ?rest"
    using cut_snd_subset[of "CHR ''/''" "drop 2 ?rest"] d2 by blast
  have hq: "CHR ''?'' \<notin> set (fst (cut (CHR ''/'') (drop 2 ?rest)))"
    and hh: "CHR ''#'' \<notin> set (fst (cut (CHR ''/'') (drop 2 ?rest)))"
    using cs rq rh by blast+
  have pq: "\<And>p. snd (cut (CHR ''/'') (drop 2 ?rest)) = Some p \<Longrightarrow>
              CHR ''?'' \<notin> set p \<and> CHR ''#'' \<notin> set p"
    using cp rq rh by blast
  obtain authority after where c: "cut (CHR ''/'') (drop 2 ?rest) = (authority, after)"
    by (cases "cut (CHR ''/'') (drop 2 ?rest)")
  from c ca hq hh have au: "CHR ''/'' \<notin> set authority \<and> CHR ''?'' \<notin> set authority
      \<and> CHR ''#'' \<notin> set authority" by simp
  from c have sa: "snd (cut (CHR ''/'') (drop 2 ?rest)) = after" by simp
  have af: "\<And>p. after = Some p \<Longrightarrow> CHR ''?'' \<notin> set p \<and> CHR ''#'' \<notin> set p"
    using pq unfolding sa .
  let ?sch = "map to_lower scheme0"
  let ?A = "\<lparr>Scheme = ?sch, Opaque = ?rest, Host = [], Path = [],
                  ForceQuery = ?force, RawQuery = ?query, Fragment = []\<rparr>"
  let ?B = "\<lparr>Scheme = ?sch, Opaque = [], Host = authority,
                       Path = (case after of None \<Rightarrow> [] | Some p \<Rightarrow> CHR ''/'' # p),
                       ForceQuery = ?force, RawQuery = ?query, Fragment = []\<rparr>"
  let ?C = "\<lparr>Scheme = ?sch, Opaque = [], Host = [], Path = ?rest,
                ForceQuery = ?force, RawQuery = ?query, Fragment = []\<rparr>"
  have wA: "\<not> has_prefix ''/'' ?rest \<Longrightarrow> ?sch \<noteq> [] \<Longrightarrow> well_formed ?A \<and> Fragment ?A = []"
    using rq rh qh unfolding well_formed_def by (simp add: no_prefix_Nil del: has_prefix.simps)
  have wB: "well_formed ?B \<and> Fragment ?B = []"
    using au af qh unfolding well_formed_def by (cases after) (simp_all add: no_prefix_Nil del: has_prefix.simps)
  have wC: "well_formed ?C \<and> Fragment ?C = []"
    using rq rh qh unfolding well_formed_def by (simp add: no_prefix_Nil del: has_prefix.simps)
  from assms(1) False g c
  have "u = ?A \<and> \<not> has_prefix ''/'' ?rest \<and> ?sch \<noteq> [] \<or> u = ?B \<or> u = ?C"
    by (auto simp: parse_no_fragment_def Let_def split: if_splits)
  with wA wB wC show ?thesis by blast
qed

lemma go_url_Parse_wf: "go_url_Parse s = Inr u \<Longrightarrow> well_formed u"
proof -
  assume a: "go_url_Parse s = Inr u"
  obtain r frag where c: "cut (CHR ''#'') s = (r, frag)" by (cases "cut (CHR ''#'') s")
  then have h: "CHR ''#'' \<notin> set r" using cut_fst_notin[of "CHR ''#''" s] by simp
  from a c obtain v where v: "parse_no_fragment r = Inr v"
      and u: "u = v\<lparr>Fragment := (case frag of None \<Rightarrow> [] | Some f \<Rightarrow> f)\<rparr>"
    by (auto simp: go_url_Parse_def split: sum.splits)
  from parse_no_fragment_wf[OF v h] show ?thesis by (simp add: u well_formed_def)
qed

lemma resolvePath_no_char:
  "c \<noteq> CHR ''/'' \<Longrightarrow> c \<notin> set b \<Longrightarrow> c \<notin> set r \<Longrightarrow> c \<notin> set (resolvePath b r)"
  using resolvePath_chars[of b r] by auto

lemma resolvePath_Nil: "resolvePath [] [] = []"
  by (simp add: resolvePath_def)

lemma resolvePath_no_question:
  "CHR ''?'' \<notin> set b \<Longrightarrow> CHR ''?'' \<notin> set r \<Longrightarrow> CHR ''?'' \<notin> set (resolvePath b r)"
  by (rule resolvePath_no_char) simp_all

lemma resolvePath_no_hash:
  "CHR ''#'' \<notin> set b \<Longrightarrow> CHR ''#'' \<notin> set r \<Longrightarrow> CHR ''#'' \<notin> set (resolvePath b r)"
  by (rule resolvePath_no_char) simp_all

lemma tidy_resolvePath: "tidy (u\<lparr>Path := resolvePath b r\<rparr>)"
  using resolvePath_rooted[of b r] by (simp add: tidy_def resolvePath_idem)

lemma tidy_empty_Path: "Path u = [] \<Longrightarrow> tidy u"
  by (simp add: tidy_def resolvePath_Nil)

lemma ResolveReference_tidy: "tidy (ResolveReference p ref)"
  by (simp add: ResolveReference_def Let_def tidy_resolvePath tidy_empty_Path)

lemma ResolveReference_wf:
  assumes "well_formed p" and "well_formed ref"
  shows "well_formed (ResolveReference p ref)"
  using assms
  by (simp add: well_formed_def ResolveReference_def Let_def resolvePath_Nil
        resolvePath_no_question resolvePath_no_hash no_prefix_Nil del: has_prefix.simps)










lemma go_formatURL_well_formed:
  assumes "well_formed p" and "formatURL go_neturl p h = Return (Some u)"
  shows "well_formed u \<and> tidy u \<and> (Scheme u = ''http'' \<or> Scheme u = ''https'') \<and> Fragment u = []"
proof -
  from assms(2) obtain rel where r: "go_URL_Parse p h = Inr rel"
      and s: "Scheme rel = ''http'' \<or> Scheme rel = ''https''" and u: "u = rel\<lparr>Fragment := []\<rparr>"
    by (auto simp: formatURL_def go_neturl_def split: sum.splits if_splits)
  from r obtain ref where p: "go_url_Parse h = Inr ref" and rel: "rel = ResolveReference p ref"
    by (auto simp: go_URL_Parse_def split: sum.splits)
  from ResolveReference_wf[OF assms(1) go_url_Parse_wf[OF p]] have "well_formed rel" by (simp add: rel)
  then have "well_formed u" by (simp add: u well_formed_def)
  moreover have "tidy u" using ResolveReference_tidy[of p ref] by (simp add: u rel tidy_def)
  ultimately show ?thesis using s by (simp add: u)
qed

















section \<open>Claims about link extraction\<close>

text \<open>
  C3. The claim: for every base URL and every href, link extraction never panics; a href
  that cannot be resolved yields no URL for its anchor and extraction goes on. The code
  does otherwise: \<open>formatURL\<close> calls \<open>panic(err)\<close> when the resolution fails. Here a page
  whose first anchor is \<open><a href=":">\<close> and whose second is \<open><a href="/test">\<close>: the
  extraction panics with the error of \<open>Parse\<close> and the second link is lost with it.
\<close>

theorem malformed_href_panics:
  "collectLinks go_neturl dummyURL [anchor '':'', anchor ''/test'']
     = Panic (NetError False ''missing protocol scheme'')"
  by (simp add: collectLinks_def anchor_def formatURL_def go_defs)

text \<open>
  C3, as the code has it: \<open>formatURL\<close> panics exactly when the resolution of the href
  against the page's URL fails, with that error; \<open>collectLinks\<close> panics exactly when some
  \<open>href\<close> of an anchor of the page fails to resolve, and returns exactly when all of them
  resolve.
\<close>

theorem collectLinks_panics_iff_href_unresolvable:
  "(formatURL L pageURL rawURL = Panic err \<longleftrightarrow> URL_Parse L pageURL rawURL = Inl err)
   \<and> ((\<exists>err. collectLinks L pageURL r = Panic err)
        \<longleftrightarrow> (\<exists>h\<in>set (hrefs r). \<exists>err. URL_Parse L pageURL h = Inl err))
   \<and> ((\<exists>links. collectLinks L pageURL r = Return links)
        \<longleftrightarrow> (\<forall>h\<in>set (hrefs r). \<exists>u. URL_Parse L pageURL h = Inr u))"
  by (simp only: formatURL_Panic_iff collectLinks_format_all format_all_Panic_iff
        format_all_Return_iff)

theorem collectLinks_panics_iff_href_unresolvable_witness:
  "hrefs [anchor ''/test'', anchor ''mailto:test@test.com''] = [''/test'', ''mailto:test@test.com'']
   \<and> (\<exists>u. URL_Parse go_neturl dummyURL ''/test'' = Inr u)
   \<and> (\<exists>u. URL_Parse go_neturl dummyURL ''mailto:test@test.com'' = Inr u)
   \<and> (\<exists>links. collectLinks go_neturl dummyURL [anchor ''/test'', anchor ''mailto:test@test.com'']
                 = Return links)"
proof -
  have h: "hrefs [anchor ''/test'', anchor ''mailto:test@test.com'']
            = [''/test'', ''mailto:test@test.com'']"
    by (simp add: hrefs_def anchor_def)
  have a: "\<exists>u. URL_Parse go_neturl dummyURL ''/test'' = Inr u"
    by (simp add: go_defs dummyURL_def)
  have b: "\<exists>u. URL_Parse go_neturl dummyURL ''mailto:test@test.com'' = Inr u"
    by (simp add: go_defs dummyURL_def)
  have "\<forall>h\<in>set (hrefs [anchor ''/test'', anchor ''mailto:test@test.com'']).
           \<exists>u. URL_Parse go_neturl dummyURL h = Inr u"
    using a b by (simp add: h)
  then have "\<exists>links. collectLinks go_neturl dummyURL
                       [anchor ''/test'', anchor ''mailto:test@test.com''] = Return links"
    using collectLinks_panics_iff_href_unresolvable
            [of go_neturl dummyURL "''/test''" "NetError False ''''"
                "[anchor ''/test'', anchor ''mailto:test@test.com'']"]
    by blast
  with h a b show ?thesis by blast
qed

text \<open>
  C6. A link \<open>formatURL\<close> keeps has an empty fragment, and so has every link
  \<open>collectLinks\<close> returns; two hrefs whose resolutions differ only in the fragment give
  the same result, hence the same key \<open>link.String()\<close> of the map \<open>cache\<close>; and with the
  model of \<open>net/url\<close>, \<open>http://x.test/a#frag\<close> against any base gives the URL printed as
  \<open>http://x.test/a\<close>.
\<close>

theorem formatURL_strips_fragment:
  "(formatURL L pageURL rawURL = Return (Some link) \<longrightarrow> Fragment link = '''')
   \<and> (collectLinks L pageURL r = Return links \<longrightarrow> (\<forall>link\<in>set links. Fragment link = ''''))
   \<and> (URL_Parse L pageURL h1 = Inr u1 \<and> URL_Parse L pageURL h2 = Inr (u1\<lparr>Fragment := f\<rparr>)
        \<longrightarrow> formatURL L pageURL h1 = formatURL L pageURL h2)
   \<and> formatURL go_neturl base ''http://x.test/a#frag'' = Return (Some (http_url ''x.test'' ''/a''))
   \<and> URL_String go_neturl (http_url ''x.test'' ''/a'') = ''http://x.test/a''"
proof (intro conjI impI)
  assume "formatURL L pageURL rawURL = Return (Some link)"
  then show "Fragment link = ''''" by (rule formatURL_kept_fragment)
next
  assume "collectLinks L pageURL r = Return links"
  then have "format_all L pageURL (hrefs r) [] = Return links"
    by (simp add: collectLinks_format_all)
  then show "\<forall>link\<in>set links. Fragment link = ''''"
    by (rule format_all_kept) (auto dest: formatURL_kept_fragment)
next
  assume "URL_Parse L pageURL h1 = Inr u1 \<and> URL_Parse L pageURL h2 = Inr (u1\<lparr>Fragment := f\<rparr>)"
  then show "formatURL L pageURL h1 = formatURL L pageURL h2"
    by (simp add: formatURL_def)
next
  show "formatURL go_neturl base ''http://x.test/a#frag'' = Return (Some (http_url ''x.test'' ''/a''))"
    by (simp add: formatURL_def go_defs http_url_def)
next
  show "URL_String go_neturl (http_url ''x.test'' ''/a'') = ''http://x.test/a''"
    by (simp add: go_defs http_url_def)
qed

theorem formatURL_strips_fragment_witness:
  "formatURL go_neturl dummyURL ''/test#frag'' = Return (Some (http_url ''www.google.com'' ''/test''))
   \<and> Fragment (http_url ''www.google.com'' ''/test'') = ''''
   \<and> URL_Parse go_neturl dummyURL ''/test''
       = Inr (http_url ''www.google.com'' ''/test'')
   \<and> URL_Parse go_neturl dummyURL ''/test#frag''
       = Inr ((http_url ''www.google.com'' ''/test'')\<lparr>Fragment := ''frag''\<rparr>)
   \<and> formatURL go_neturl dummyURL ''/test'' = formatURL go_neturl dummyURL ''/test#frag''"
proof -
  have a: "formatURL go_neturl dummyURL ''/test#frag''
             = Return (Some (http_url ''www.google.com'' ''/test''))"
    by (simp add: formatURL_def go_defs http_url_def dummyURL_def)
  have b: "URL_Parse go_neturl dummyURL ''/test'' = Inr (http_url ''www.google.com'' ''/test'')"
    by (simp add: go_defs http_url_def dummyURL_def)
  have c: "URL_Parse go_neturl dummyURL ''/test#frag''
             = Inr ((http_url ''www.google.com'' ''/test'')\<lparr>Fragment := ''frag''\<rparr>)"
    by (simp add: go_defs http_url_def dummyURL_def)
  note t = formatURL_strips_fragment
             [of go_neturl dummyURL "''/test#frag''" "http_url ''www.google.com'' ''/test''"
                 "[]" "[]" "''/test''" "http_url ''www.google.com'' ''/test''" "''/test#frag''"
                 "''frag''" dummyURL]
  from t a have "Fragment (http_url ''www.google.com'' ''/test'') = ''''" by blast
  moreover from t b c have "formatURL go_neturl dummyURL ''/test''
                              = formatURL go_neturl dummyURL ''/test#frag''" by blast
  ultimately show ?thesis using a b c by blast
qed

text \<open>
  C7. When the href resolves, \<open>formatURL\<close> keeps the resolved URL (without its fragment)
  if its scheme is \<open>http\<close> or \<open>https\<close> and returns nil otherwise; so every link it keeps,
  and every link \<open>collectLinks\<close> returns, has one of the two schemes.
\<close>

theorem formatURL_keeps_only_http_https:
  "(URL_Parse L pageURL rawURL = Inr rel \<longrightarrow>
      formatURL L pageURL rawURL =
        Return (if Scheme rel = ''http'' \<or> Scheme rel = ''https''
                then Some (rel\<lparr>Fragment := ''''\<rparr>) else None))
   \<and> (formatURL L pageURL rawURL = Return (Some link) \<longrightarrow>
        Scheme link = ''http'' \<or> Scheme link = ''https'')
   \<and> (collectLinks L pageURL r = Return links \<longrightarrow>
        (\<forall>link\<in>set links. Scheme link = ''http'' \<or> Scheme link = ''https''))"
proof (intro conjI impI)
  assume "URL_Parse L pageURL rawURL = Inr rel"
  then show "formatURL L pageURL rawURL =
        Return (if Scheme rel = ''http'' \<or> Scheme rel = ''https''
                then Some (rel\<lparr>Fragment := ''''\<rparr>) else None)"
    by (simp add: formatURL_def)
next
  assume "formatURL L pageURL rawURL = Return (Some link)"
  then show "Scheme link = ''http'' \<or> Scheme link = ''https''"
    by (rule formatURL_kept_scheme)
next
  assume "collectLinks L pageURL r = Return links"
  then have "format_all L pageURL (hrefs r) [] = Return links"
    by (simp add: collectLinks_format_all)
  then show "\<forall>link\<in>set links. Scheme link = ''http'' \<or> Scheme link = ''https''"
    by (rule format_all_kept) (auto dest: formatURL_kept_scheme)
qed

theorem formatURL_keeps_only_http_https_witness:
  "URL_Parse go_neturl dummyURL ''mailto:test@test.com''
     = Inr \<lparr>Scheme = ''mailto'', Opaque = ''test@test.com'', Host = '''', Path = '''',
            ForceQuery = False, RawQuery = '''', Fragment = ''''\<rparr>
   \<and> formatURL go_neturl dummyURL ''mailto:test@test.com'' = Return None
   \<and> collectLinks go_neturl dummyURL [anchor ''mailto:test@test.com'', anchor ''https://x.test/a'']
       = Return [\<lparr>Scheme = ''https'', Opaque = '''', Host = ''x.test'', Path = ''/a'',
                  ForceQuery = False, RawQuery = '''', Fragment = ''''\<rparr>]
   \<and> Scheme \<lparr>Scheme = ''https'', Opaque = '''', Host = ''x.test'', Path = ''/a'',
              ForceQuery = False, RawQuery = '''', Fragment = ''''\<rparr> = ''https''"
proof -
  let ?m = "\<lparr>Scheme = ''mailto'', Opaque = ''test@test.com'', Host = '''', Path = '''',
             ForceQuery = False, RawQuery = '''', Fragment = ''''\<rparr>"
  let ?x = "\<lparr>Scheme = ''https'', Opaque = '''', Host = ''x.test'', Path = ''/a'',
             ForceQuery = False, RawQuery = '''', Fragment = ''''\<rparr>"
  let ?r = "[anchor ''mailto:test@test.com'', anchor ''https://x.test/a'']"
  have a: "URL_Parse go_neturl dummyURL ''mailto:test@test.com'' = Inr ?m"
    by (simp add: go_defs dummyURL_def)
  have c: "collectLinks go_neturl dummyURL ?r = Return [?x]"
    by (simp add: collectLinks_def anchor_def formatURL_def go_defs dummyURL_def)
  note t = formatURL_keeps_only_http_https
             [of go_neturl dummyURL "''mailto:test@test.com''" ?m ?x ?r "[?x]"]
  from t a have "formatURL go_neturl dummyURL ''mailto:test@test.com'' = Return None" by simp
  moreover from t c have "Scheme ?x = ''http'' \<or> Scheme ?x = ''https''" by simp
  ultimately show ?thesis using a c by simp
qed



section \<open>The fetch worker on a sequence of URLs\<close>

text \<open>
  C4. The claim: a worker processes every URL the frontier delivers and stops only when
  the frontier is exhausted and closed. Here the frontier delivers \<open>http://h.test/a\<close> and
  then \<open>http://h.test/b\<close>, and \<open>Get\<close> times out on the first. The worker sends the error
  and returns: the second URL is never received, although the loop of \<open>Crawl\<close> treats a
  timeout as recoverable and goes on.
\<close>

theorem getPages_stops_after_transport_error:
  "getPages go_neturl timeout_on_a_client [http_url ''h.test'' ''/a'', http_url ''h.test'' ''/b'']
     = Return ([OnErrs (NetError True ''Client.Timeout exceeded'')], [http_url ''h.test'' ''/b''])"
  by (simp add: fetch_def timeout_on_a_client_def http_url_def go_defs)

section \<open>The counter of \<open>Crawl\<close>\<close>

lemma sum_list_map_update:
  fixes f :: "'a \<Rightarrow> nat"
  shows "w < length ls \<Longrightarrow>
         sum_list (map f (ls[w := x])) + f (ls ! w) = sum_list (map f ls) + f x"
proof (induction ls arbitrary: w)
  case Nil
  then show ?case by simp
next
  case (Cons l ls)
  show ?case
  proof (cases w)
    case 0
    then show ?thesis by simp
  next
    case (Suc v)
    with Cons.prems have "v < length ls" by simp
    from Cons.IH[OF this] show ?thesis using Suc by simp
  qed
qed

lemma outstanding_lane_update:
  "w < length (lanes s) \<Longrightarrow>
   outstanding (s\<lparr>lanes := (lanes s)[w := l]\<rparr>) + lane_load (lanes s ! w)
     = outstanding s + lane_load l"
  using sum_list_map_update[of w "lanes s" lane_load l] by (simp add: outstanding_def)

lemma lane_load_le_outstanding:
  "w < length (lanes s) \<Longrightarrow> lane_load (lanes s ! w) \<le> outstanding s"
  using sum_list_map_update[of w "lanes s" lane_load "lanes s ! w"]
  by (simp add: outstanding_def member_le_sum_list trans_le_add2)

lemma admit_links_fields:
  "lanes (admit_links L links s) = lanes s
   \<and> status (admit_links L links s) = status s
   \<and> newURLs_closed (admit_links L links s) = newURLs_closed s
   \<and> written (admit_links L links s) = written s
   \<and> stdout (admit_links L links s) = stdout s
   \<and> seedURL (admit_links L links s) = seedURL s"
  by (induction links arbitrary: s) simp_all

text \<open>Each admitted link adds one to the counter and one sending goroutine.\<close>

lemma admit_links_counts:
  "wg (admit_links L links s) - int (length (newURLs_senders (admit_links L links s)))
     = wg s - int (length (newURLs_senders s))"
  by (induction links arbitrary: s) simp_all

lemma admit_links_outstanding:
  "wg (admit_links L links s) - int (outstanding (admit_links L links s))
     = wg s - int (outstanding s)"
  using admit_links_counts[of L links s] admit_links_fields[of L links s]
  by (simp add: outstanding_def)

lemma accounted_Deliver:
  assumes "accounted s" and "step L c out_Write (Deliver i w) s = Some s'"
  shows "accounted s'"
proof -
  from assms(2) have en: "status s = Looping" "i < length (newURLs_senders s)"
      "w < length (lanes s)" "worker (lanes s ! w) = Ranging" "\<not> newURLs_closed s"
    by (auto split: if_splits)
  let ?t = "s\<lparr>newURLs_senders := take i (newURLs_senders s) @ drop (Suc i) (newURLs_senders s)\<rparr>"
  show ?thesis
  proof (cases "fetch L (httpClient c) (newURLs_senders s ! i)")
    case (Panic err)
    with assms(2) en have "s' = ?t\<lparr>status := Crashed (Panicked err)\<rparr>" by (simp add: Let_def)
    with assms(1) en show ?thesis by (simp add: accounted_def)
  next
    case (Return r)
    obtain x a where r: "r = (x, a)" by (cases r)
    with Return assms(2) en have s': "s' = set_worker w (Sending x a) ?t" by (simp add: Let_def)
    have w: "w < length (lanes ?t)" using en by simp
    have "outstanding (?t\<lparr>lanes := (lanes ?t)[w := (lanes ?t ! w)\<lparr>worker := Sending x a\<rparr>]\<rparr>)
            + lane_load (lanes ?t ! w)
          = outstanding ?t + lane_load ((lanes ?t ! w)\<lparr>worker := Sending x a\<rparr>)"
      by (rule outstanding_lane_update[OF w])
    moreover have "lane_load ((lanes ?t ! w)\<lparr>worker := Sending x a\<rparr>) = lane_load (lanes ?t ! w) + 1"
      using en by (simp add: lane_load_def)
    moreover have "outstanding ?t + 1 = outstanding s" using en by (simp add: outstanding_def)
    ultimately have "outstanding s' = outstanding s" by (simp add: s' set_worker_def)
    with assms(1) en show ?thesis by (simp add: accounted_def s' set_worker_def)
  qed
qed

lemma accounted_CloseFrontier:
  assumes "accounted s" and "step L c out_Write CloseFrontier s = Some s'"
  shows "accounted s'"
proof -
  from assms(2) have en: "status s = Looping" "wg s = 0" "\<not> newURLs_closed s"
    by (auto split: if_splits)
  with assms(1) have "outstanding s = 0" by (simp add: accounted_def)
  then have e: "newURLs_senders s = []" by (simp add: outstanding_def)
  with assms(2) en have "s' = s\<lparr>newURLs_closed := True\<rparr>" by simp
  with assms(1) en e show ?thesis by (simp add: accounted_def outstanding_def)
qed

lemma accounted_RangeEnds:
  assumes "accounted s" and "step L c out_Write (RangeEnds w) s = Some s'"
  shows "accounted s'"
proof -
  from assms(2) have en: "status s = Looping" "w < length (lanes s)"
      "worker (lanes s ! w) = Ranging"
    and s': "s' = set_worker w Gone s"
    by (auto split: if_splits)
  have "outstanding (s\<lparr>lanes := (lanes s)[w := (lanes s ! w)\<lparr>worker := Gone\<rparr>]\<rparr>)
          + lane_load (lanes s ! w)
        = outstanding s + lane_load ((lanes s ! w)\<lparr>worker := Gone\<rparr>)"
    by (rule outstanding_lane_update[OF en(2)])
  moreover have "lane_load ((lanes s ! w)\<lparr>worker := Gone\<rparr>) = lane_load (lanes s ! w)"
    using en by (simp add: lane_load_def)
  ultimately have "outstanding s' = outstanding s" by (simp add: s' set_worker_def)
  with assms(1) show ?thesis by (simp add: accounted_def s' set_worker_def)
qed

lemma accounted_Forward:
  assumes "accounted s" and "step L c out_Write (Forward w) s = Some s'"
  shows "accounted s'"
proof -
  from assms(2) have en: "status s = Looping" "w < length (lanes s)"
    by (auto split: if_splits)
  from assms(2) en obtain l where s': "s' = s\<lparr>lanes := (lanes s)[w := l]\<rparr>"
      and l: "lane_load l = lane_load (lanes s ! w)"
    by (auto simp: lane_load_def after_send_def
             split: worker.splits emitted.splits if_splits after.splits)
  have "outstanding (s\<lparr>lanes := (lanes s)[w := l]\<rparr>) + lane_load (lanes s ! w)
          = outstanding s + lane_load l"
    by (rule outstanding_lane_update[OF en(2)])
  with l have "outstanding s' = outstanding s" by (simp add: s')
  with assms(1) show ?thesis by (simp add: accounted_def s')
qed

lemma accounted_LoopPage:
  assumes "accounted s" and "step L c out_Write (LoopPage w) s = Some s'"
  shows "accounted s'"
proof -
  from assms(2) obtain p where en: "status s = Looping" "w < length (lanes s)"
      "page_fwd (lanes s ! w) = Some p"
    by (auto split: if_splits option.splits)
  let ?t = "s\<lparr>lanes := (lanes s)[w := (lanes s ! w)\<lparr>page_fwd := None\<rparr>]\<rparr>"
  from assms(2) en have s': "s' = on_page L out_Write p ?t" by simp
  have "outstanding ?t + lane_load (lanes s ! w)
          = outstanding s + lane_load ((lanes s ! w)\<lparr>page_fwd := None\<rparr>)"
    by (rule outstanding_lane_update[OF en(2)])
  moreover have "lane_load (lanes s ! w) = lane_load ((lanes s ! w)\<lparr>page_fwd := None\<rparr>) + 1"
    using en by (simp add: lane_load_def)
  ultimately have o: "outstanding ?t + 1 = outstanding s" by simp
  with assms(1) en have wg1: "wg s = int (outstanding ?t) + 1" by (simp add: accounted_def)
  then have nc: "\<not> newURLs_closed s" using assms(1) by (auto simp: accounted_def)
  show ?thesis
  proof (cases "out_Write (written s) (Marshal L p)")
    case (Some err)
    then have "s' = ?t\<lparr>status := Returned (Some err)\<rparr>" by (simp add: s' on_page_def)
    with assms(1) nc wg1 show ?thesis by (simp add: accounted_def)
  next
    case None
    let ?u = "admit_links L (Links p) (?t\<lparr>written := written s @ [Marshal L p]\<rparr>)"
    from None have s'': "s' = wg_Done ?u" by (simp add: s' on_page_def)
    have "wg ?u - int (outstanding ?u) = wg s - int (outstanding ?t)"
      using admit_links_outstanding[of L "Links p" "?t\<lparr>written := written s @ [Marshal L p]\<rparr>"]
      by (simp add: outstanding_def)
    with wg1 have a: "wg ?u = int (outstanding ?u) + 1" by simp
    have f: "status ?u = Looping" "newURLs_closed ?u = False"
      using admit_links_fields[of L "Links p" "?t\<lparr>written := written s @ [Marshal L p]\<rparr>"] en nc
      by simp_all
    from a have "s' = ?u\<lparr>wg := wg ?u - 1\<rparr>" by (simp add: s'' wg_Done_def)
    with a f show ?thesis by (simp add: accounted_def outstanding_def)
  qed
qed

lemma accounted_LoopError:
  assumes "accounted s" and "step L c out_Write (LoopError w) s = Some s'"
  shows "accounted s'"
proof -
  from assms(2) obtain err where en: "status s = Looping" "w < length (lanes s)"
      "err_fwd (lanes s ! w) = Some err"
    by (auto split: if_splits option.splits)
  let ?t = "s\<lparr>lanes := (lanes s)[w := (lanes s ! w)\<lparr>err_fwd := None\<rparr>]\<rparr>"
  from assms(2) en have s': "s' = on_error err ?t" by simp
  have "outstanding ?t + lane_load (lanes s ! w)
          = outstanding s + lane_load ((lanes s ! w)\<lparr>err_fwd := None\<rparr>)"
    by (rule outstanding_lane_update[OF en(2)])
  moreover have "lane_load (lanes s ! w) = lane_load ((lanes s ! w)\<lparr>err_fwd := None\<rparr>) + 1"
    using en by (simp add: lane_load_def)
  ultimately have o: "outstanding ?t + 1 = outstanding s" by simp
  with assms(1) en have wg1: "wg s = int (outstanding ?t) + 1" by (simp add: accounted_def)
  then have nc: "\<not> newURLs_closed s" using assms(1) by (auto simp: accounted_def)
  show ?thesis
  proof (cases "cause_is_ErrHttpStatusCode err \<or> net_error_timeout err")
    case True
    then have "s' = wg_Done (?t\<lparr>stdout := stdout s @ [err]\<rparr>)" by (auto simp: s' on_error_def)
    with wg1 have "s' = ?t\<lparr>stdout := stdout s @ [err], wg := wg s - 1\<rparr>"
      by (simp add: wg_Done_def)
    with wg1 en nc show ?thesis by (simp add: accounted_def outstanding_def)
  next
    case False
    then have "s' = ?t\<lparr>status := Returned (Some err)\<rparr>" by (simp add: s' on_error_def)
    with assms(1) nc wg1 show ?thesis by (simp add: accounted_def)
  qed
qed

lemma accounted_step:
  assumes "accounted s" and "step L c out_Write a s = Some s'"
  shows "accounted s'"
proof (cases a)
  case (Deliver i w)
  with assms show ?thesis using accounted_Deliver by blast
next
  case CloseFrontier
  with assms show ?thesis using accounted_CloseFrontier by blast
next
  case (RangeEnds w)
  with assms show ?thesis using accounted_RangeEnds by blast
next
  case (Forward w)
  with assms show ?thesis using accounted_Forward by blast
next
  case (LoopPage w)
  with assms show ?thesis using accounted_LoopPage by blast
next
  case (LoopError w)
  with assms show ?thesis using accounted_LoopError by blast
next
  case LoopPagesClosed
  with assms show ?thesis by (auto simp: accounted_def split: if_splits)
next
  case LoopErrsClosed
  with assms show ?thesis by (auto simp: accounted_def split: if_splits)
qed

lemma accounted_run:
  "accounted s \<Longrightarrow> run L c out_Write as s = Some s' \<Longrightarrow> accounted s'"
proof (induction as arbitrary: s)
  case Nil
  then show ?case by simp
next
  case (Cons a as)
  from Cons.prems(2) obtain t where t: "step L c out_Write a s = Some t"
      "run L c out_Write as t = Some s'"
    by (auto split: option.splits)
  from accounted_step[OF Cons.prems(1) t(1)] have "accounted t" .
  from Cons.IH[OF this t(2)] show ?case .
qed

lemma sum_list_map_replicate: "sum_list (map f (replicate n x)) = n * (f x :: nat)"
  by (induction n) simp_all

lemma accounted_start: "Crawl_start L c rawURL = Inr s0 \<Longrightarrow> accounted s0"
  by (auto simp: Crawl_start_def accounted_def outstanding_def lane_load_def
                 sum_list_map_replicate split: sum.splits)

lemma accounted_Crawl: "Crawl L c out_Write rawURL as = Inr (Some s) \<Longrightarrow> accounted s"
proof -
  assume "Crawl L c out_Write rawURL as = Inr (Some s)"
  then obtain s0 where s0: "Crawl_start L c rawURL = Inr s0" "run L c out_Write as s0 = Some s"
    by (auto simp: Crawl_def split: sum.splits)
  show "accounted s" using accounted_run[OF accounted_start[OF s0(1)] s0(2)] .
qed

lemma run_append:
  "run L c out_Write (as @ bs) s =
     (case run L c out_Write as s of None \<Rightarrow> None | Some t \<Rightarrow> run L c out_Write bs t)"
  by (induction as arbitrary: s) (auto split: option.splits)

lemma Crawl_snoc:
  "Crawl L c out_Write rawURL as = Inr (Some s) \<Longrightarrow>
   Crawl L c out_Write rawURL (as @ [a]) = Inr (step L c out_Write a s)"
  by (auto simp: Crawl_def run_append split: sum.splits option.splits)

text \<open>\<open>wg.Done()\<close> leaves the frontier as it is.\<close>

lemma wg_Done_closed: "newURLs_closed (wg_Done s) = newURLs_closed s"
  by (simp add: wg_Done_def)

section \<open>The counter of \<open>Crawl\<close>, statement by statement\<close>

text \<open>What the steps of the workers leave as it is.\<close>

lemma Deliver_keeps:
  assumes "step L c out_Write (Deliver i w) s = Some s'"
  shows "status s = Looping" and "wg s' = wg s" and "newURLs_closed s' = newURLs_closed s"
    and "status s' = Looping \<Longrightarrow> outstanding s' = outstanding s"
    and "status s' = Looping \<or> (\<exists>err. status s' = Crashed (Panicked err))"
    and "newURLs_senders s \<noteq> []"
proof -
  from assms have en: "status s = Looping" "i < length (newURLs_senders s)"
      "w < length (lanes s)" "worker (lanes s ! w) = Ranging" "\<not> newURLs_closed s"
    by (auto split: if_splits)
  let ?t = "s\<lparr>newURLs_senders := take i (newURLs_senders s) @ drop (Suc i) (newURLs_senders s)\<rparr>"
  show "status s = Looping" by (rule en(1))
  show "newURLs_senders s \<noteq> []" using en(2) by auto
  show "wg s' = wg s" using assms en
    by (auto simp: Let_def set_worker_def split: result.splits)
  show "newURLs_closed s' = newURLs_closed s" using assms en
    by (auto simp: Let_def set_worker_def split: result.splits)
  show "status s' = Looping \<or> (\<exists>err. status s' = Crashed (Panicked err))" using assms en
    by (auto simp: Let_def set_worker_def split: result.splits)
  show "outstanding s' = outstanding s" if lo: "status s' = Looping"
  proof (cases "fetch L (httpClient c) (newURLs_senders s ! i)")
    case (Panic err)
    with assms en have "s' = ?t\<lparr>status := Crashed (Panicked err)\<rparr>" by (simp add: Let_def)
    with lo show ?thesis by simp
  next
    case (Return r)
    obtain x a where r: "r = (x, a)" by (cases r)
    with Return assms en have s': "s' = set_worker w (Sending x a) ?t" by (simp add: Let_def)
    have w: "w < length (lanes ?t)" using en by simp
    have "outstanding (?t\<lparr>lanes := (lanes ?t)[w := (lanes ?t ! w)\<lparr>worker := Sending x a\<rparr>]\<rparr>)
            + lane_load (lanes ?t ! w)
          = outstanding ?t + lane_load ((lanes ?t ! w)\<lparr>worker := Sending x a\<rparr>)"
      by (rule outstanding_lane_update[OF w])
    moreover have "lane_load ((lanes ?t ! w)\<lparr>worker := Sending x a\<rparr>) = lane_load (lanes ?t ! w) + 1"
      using en by (simp add: lane_load_def)
    moreover have "outstanding ?t + 1 = outstanding s" using en by (simp add: outstanding_def)
    ultimately show "outstanding s' = outstanding s" by (simp add: s' set_worker_def)
  qed
qed

lemma RangeEnds_keeps:
  assumes "step L c out_Write (RangeEnds w) s = Some s'"
  shows "status s = Looping" and "wg s' = wg s" and "newURLs_closed s' = newURLs_closed s"
    and "outstanding s' = outstanding s" and "status s' = Looping"
    and "newURLs_senders s' = newURLs_senders s" and "newURLs_closed s"
proof -
  from assms have en: "status s = Looping" "w < length (lanes s)"
      "worker (lanes s ! w) = Ranging" "newURLs_closed s"
    and s': "s' = set_worker w Gone s"
    by (auto split: if_splits)
  have "outstanding (s\<lparr>lanes := (lanes s)[w := (lanes s ! w)\<lparr>worker := Gone\<rparr>]\<rparr>)
          + lane_load (lanes s ! w)
        = outstanding s + lane_load ((lanes s ! w)\<lparr>worker := Gone\<rparr>)"
    by (rule outstanding_lane_update[OF en(2)])
  moreover have "lane_load ((lanes s ! w)\<lparr>worker := Gone\<rparr>) = lane_load (lanes s ! w)"
    using en by (simp add: lane_load_def)
  ultimately show "outstanding s' = outstanding s" by (simp add: s' set_worker_def)
  show "status s = Looping" "newURLs_closed s" by (rule en(1), rule en(4))
  show "wg s' = wg s" "newURLs_closed s' = newURLs_closed s" "status s' = Looping"
      "newURLs_senders s' = newURLs_senders s"
    using en by (simp_all add: s' set_worker_def)
qed

lemma Forward_keeps:
  assumes "step L c out_Write (Forward w) s = Some s'"
  shows "status s = Looping" and "wg s' = wg s" and "newURLs_closed s' = newURLs_closed s"
    and "outstanding s' = outstanding s" and "status s' = Looping"
    and "newURLs_senders s' = newURLs_senders s"
proof -
  from assms have en: "status s = Looping" "w < length (lanes s)"
    by (auto split: if_splits)
  from assms en obtain l where s': "s' = s\<lparr>lanes := (lanes s)[w := l]\<rparr>"
      and l: "lane_load l = lane_load (lanes s ! w)"
    by (auto simp: lane_load_def after_send_def
             split: worker.splits emitted.splits if_splits after.splits)
  have "outstanding (s\<lparr>lanes := (lanes s)[w := l]\<rparr>) + lane_load (lanes s ! w)
          = outstanding s + lane_load l"
    by (rule outstanding_lane_update[OF en(2)])
  with l show "outstanding s' = outstanding s" by (simp add: s')
  show "status s = Looping" by (rule en(1))
  show "wg s' = wg s" "newURLs_closed s' = newURLs_closed s" "status s' = Looping"
      "newURLs_senders s' = newURLs_senders s"
    using en by (simp_all add: s')
qed






















lemma advance_all_append:
  "advance_all L c out_Write (as @ bs) g =
     (case advance_all L c out_Write as g of
        None \<Rightarrow> None
      | Some t \<Rightarrow> advance_all L c out_Write bs t)"
  by (induction as arbitrary: g) (auto split: option.splits)





text \<open>
  A step of section \<open>Crawl\<close> is the sequence of its events with no other goroutine in
  between, so every run of those steps is a run of the events.
\<close>

lemma link_events_admit:
  assumes "status (shared g) = Looping" and "\<not> newURLs_closed (shared g)"
    and "loop_at g = next_link links"
  shows "advance_all L c out_Write (link_events L links (shared g)) g
           = Some (g\<lparr>shared := admit_links L links (shared g), loop_at := AtDone\<rparr>)"
  using assms
proof (induction links arbitrary: g)
  case Nil
  then have "loop_at g = AtDone" by (simp add: next_link_def)
  then have "g\<lparr>shared := shared g, loop_at := AtDone\<rparr> = g" by (cases g) simp
  then show ?case by simp
next
  case (Cons link links)
  from Cons.prems(3) have at: "loop_at g = AtLink link links" by (simp add: next_link_def)
  show ?case
  proof (cases "URL_Hostname L link = URL_Hostname L (seedURL (shared g))
                  \<and> URL_String L link \<notin> cache (shared g)")
    case True
    let ?s' = "(shared g)\<lparr>cache := insert (URL_String L link) (cache (shared g)),
                          wg := wg (shared g) + 1,
                          newURLs_senders := newURLs_senders (shared g) @ [link]\<rparr>"
    let ?g' = "g\<lparr>shared := ?s', loop_at := next_link links\<rparr>"
    have three: "advance_all L c out_Write [NextLink, WgAdd, GoSend] g = Some ?g'"
      using True at Cons.prems(1,2) by (simp add: Let_def)
    have ih: "advance_all L c out_Write (link_events L links (shared ?g')) ?g'
                = Some (?g'\<lparr>shared := admit_links L links (shared ?g'), loop_at := AtDone\<rparr>)"
      by (rule Cons.IH) (use Cons.prems in simp_all)
    have le: "link_events L (link # links) (shared g)
                = [NextLink, WgAdd, GoSend] @ link_events L links ?s'"
      using True by simp
    have al: "admit_links L (link # links) (shared g) = admit_links L links ?s'"
      using True by simp
    show ?thesis unfolding le al advance_all_append three using ih by simp
  next
    case False
    let ?g' = "g\<lparr>loop_at := next_link links\<rparr>"
    have one: "advance L c out_Write NextLink g = Some ?g'"
      using False at Cons.prems(1) by (auto simp: Let_def)
    have "advance_all L c out_Write (link_events L links (shared ?g')) ?g'
            = Some (?g'\<lparr>shared := admit_links L links (shared ?g'), loop_at := AtDone\<rparr>)"
      by (rule Cons.IH) (use Cons.prems in simp_all)
    with one False show ?thesis by auto
  qed
qed

lemma link_events_cong:
  "seedURL s = seedURL t \<Longrightarrow> cache s = cache t \<Longrightarrow> link_events L links s = link_events L links t"
proof (induction links arbitrary: s t)
  case Nil
  then show ?case by simp
next
  case (Cons link links)
  have "link_events L links
          (s\<lparr>cache := insert (URL_String L link) (cache s), wg := wg s + 1,
             newURLs_senders := newURLs_senders s @ [link]\<rparr>)
        = link_events L links
          (t\<lparr>cache := insert (URL_String L link) (cache t), wg := wg t + 1,
             newURLs_senders := newURLs_senders t @ [link]\<rparr>)"
    by (rule Cons.IH) (use Cons.prems in simp_all)
  moreover have "link_events L links s = link_events L links t"
    by (rule Cons.IH) (use Cons.prems in simp_all)
  ultimately show ?case using Cons.prems by simp
qed

lemma events_of_step:
  assumes "accounted s" and "step L c out_Write a s = Some s'"
  shows "advance_all L c out_Write (events_of L out_Write a s) (between_loop_rounds s)
           = Some (between_loop_rounds s')"
proof (cases a)
  case (Deliver i w)
  from assms(2) Deliver have "newURLs_closed s' = newURLs_closed s"
    using Deliver_keeps(3) by blast
  with assms(2) Deliver show ?thesis
    by (simp add: events_of_def between_loop_rounds_def workers_step_def)
next
  case CloseFrontier
  with assms(2) have en: "status s = Looping" "wg s = 0" "\<not> newURLs_closed s"
    by (auto split: if_splits)
  with assms(1) have "outstanding s = 0" by (simp add: accounted_def)
  then have e: "newURLs_senders s = []" by (simp add: outstanding_def)
  with assms(2) en CloseFrontier have "s' = s\<lparr>newURLs_closed := True\<rparr>" by simp
  with en e CloseFrontier show ?thesis
    by (simp add: events_of_def between_loop_rounds_def Let_def)
next
  case (RangeEnds w)
  from assms(2) RangeEnds have "newURLs_closed s' = newURLs_closed s"
    using RangeEnds_keeps(3) by blast
  with assms(2) RangeEnds show ?thesis
    by (simp add: events_of_def between_loop_rounds_def workers_step_def)
next
  case (Forward w)
  from assms(2) Forward have "newURLs_closed s' = newURLs_closed s"
    using Forward_keeps(3) by blast
  with assms(2) Forward show ?thesis
    by (simp add: events_of_def between_loop_rounds_def workers_step_def)
next
  case (LoopPage w)
  with assms(2) obtain p where en: "status s = Looping" "w < length (lanes s)"
      "page_fwd (lanes s ! w) = Some p"
    by (auto split: if_splits option.splits)
  let ?t = "s\<lparr>lanes := (lanes s)[w := (lanes s ! w)\<lparr>page_fwd := None\<rparr>]\<rparr>"
  from assms(2) en LoopPage have s': "s' = on_page L out_Write p ?t" by simp
  have "1 \<le> lane_load (lanes s ! w)" using en by (simp add: lane_load_def)
  with lane_load_le_outstanding[OF en(2)] have "1 \<le> outstanding s" by simp
  with assms(1) en have "0 < wg s" by (simp add: accounted_def)
  with assms(1) have nc: "\<not> newURLs_closed s" by (auto simp: accounted_def)
  show ?thesis
  proof (cases "out_Write (written s) (Marshal L p)")
    case (Some err)
    with en nc LoopPage show ?thesis
      by (simp add: events_of_def between_loop_rounds_def Let_def s' on_page_def)
  next
    case None
    let ?u = "?t\<lparr>written := written s @ [Marshal L p]\<rparr>"
    let ?g1 = "\<lparr>shared = ?u, loop_at = next_link (Links p), closer_at = AtWait\<rparr>"
    have first: "advance L c out_Write (GotPage w) (between_loop_rounds s) = Some ?g1"
      using en nc None by (simp add: between_loop_rounds_def Let_def)
    have le: "link_events L (Links p) s = link_events L (Links p) (shared ?g1)"
      by (rule link_events_cong) simp_all
    have links: "advance_all L c out_Write (link_events L (Links p) (shared ?g1)) ?g1
                   = Some (?g1\<lparr>shared := admit_links L (Links p) (shared ?g1), loop_at := AtDone\<rparr>)"
      by (rule link_events_admit) (use en nc in simp_all)
    have f: "status (admit_links L (Links p) ?u) = Looping"
        "newURLs_closed (admit_links L (Links p) ?u) = False"
      using admit_links_fields[of L "Links p" ?u] en nc by simp_all
    have cl: "newURLs_closed s' = False"
      using f by (simp add: s' on_page_def None wg_Done_closed)
    have last: "advance L c out_Write WgDone
                  (?g1\<lparr>shared := admit_links L (Links p) (shared ?g1), loop_at := AtDone\<rparr>)
                = Some (between_loop_rounds s')"
      using f cl by (simp add: Let_def between_loop_rounds_def s' on_page_def None)
    from first links last le None en LoopPage show ?thesis
      by (simp add: events_of_def advance_all_append)
  qed
next
  case (LoopError w)
  with assms(2) obtain err where en: "status s = Looping" "w < length (lanes s)"
      "err_fwd (lanes s ! w) = Some err"
    by (auto split: if_splits option.splits)
  let ?t = "s\<lparr>lanes := (lanes s)[w := (lanes s ! w)\<lparr>err_fwd := None\<rparr>]\<rparr>"
  from assms(2) en LoopError have s': "s' = on_error err ?t" by simp
  have "1 \<le> lane_load (lanes s ! w)" using en by (simp add: lane_load_def)
  with lane_load_le_outstanding[OF en(2)] have "1 \<le> outstanding s" by simp
  with assms(1) en have "0 < wg s" by (simp add: accounted_def)
  with assms(1) have nc: "\<not> newURLs_closed s" by (auto simp: accounted_def)
  from en nc LoopError show ?thesis
    by (auto simp: events_of_def between_loop_rounds_def Let_def s' on_error_def wg_Done_closed)
next
  case LoopPagesClosed
  with assms(2) show ?thesis
    by (auto simp: events_of_def between_loop_rounds_def workers_step_def split: if_splits)
next
  case LoopErrsClosed
  with assms(2) show ?thesis
    by (auto simp: events_of_def between_loop_rounds_def workers_step_def split: if_splits)
qed

lemma interleaving_run:
  "accounted s \<Longrightarrow> run L c out_Write as s = Some s' \<Longrightarrow>
   advance_all L c out_Write (interleaving L c out_Write as s) (between_loop_rounds s)
     = Some (between_loop_rounds s')"
proof (induction as arbitrary: s)
  case Nil
  then show ?case by simp
next
  case (Cons a as)
  from Cons.prems(2) obtain t where t: "step L c out_Write a s = Some t"
      "run L c out_Write as t = Some s'"
    by (auto split: option.splits)
  note at = accounted_step[OF Cons.prems(1) t(1)]
  from events_of_step[OF Cons.prems(1) t(1)] Cons.IH[OF at t(2)] t(1)
  show ?case by (simp add: advance_all_append)
qed

lemma Crawl_is_Crawl_events:
  assumes "Crawl_start L c rawURL = Inr s0" and "Crawl L c out_Write rawURL as = Inr (Some s)"
  shows "Crawl_events L c out_Write rawURL (interleaving L c out_Write as s0)
           = Inr (Some (between_loop_rounds s))"
proof -
  from assms have r: "run L c out_Write as s0 = Some s" by (simp add: Crawl_def)
  from assms(1) have b: "between_loop_rounds s0 = \<lparr>shared = s0, loop_at = AtSelect, closer_at = AtWait\<rparr>"
    by (auto simp: between_loop_rounds_def Crawl_start_def split: sum.splits)
  from interleaving_run[OF accounted_start[OF assms(1)] r] assms(1) b
  show ?thesis by (simp add: Crawl_events_def)
qed

section \<open>Claims about \<open>Crawl\<close>\<close>




text \<open>
  C2. The claim: no URL is fetched and emitted twice; if the seed's page links to the seed,
  exactly one page is emitted. The map \<open>cache\<close> starts empty and the seed is never stored
  in it, so the seed's link to itself is admitted as a new URL. Here the seed is
  \<open>http://h.test/\<close>, its page is \<open><a href="/">\<close>, and there is one worker: \<open>Crawl\<close>
  returns nil having written two records, both of the page \<open>http://h.test/\<close>.
\<close>

theorem seed_self_link_emits_two_pages:
  "Crawl go_neturl \<lparr>workerCount = 1, httpClient = self_link_client\<rparr> Discard ''http://h.test/''
       [Deliver 0 0, Forward 0, LoopPage 0, Deliver 0 0, Forward 0, LoopPage 0,
        CloseFrontier, RangeEnds 0, LoopPagesClosed]
     = Inr (Some \<lparr>seedURL = http_url ''h.test'' ''/'', wg = 0, cache = {''http://h.test/''},
                  newURLs_senders = [], newURLs_closed = True,
                  lanes = [\<lparr>worker = Gone, page_fwd = None, err_fwd = None\<rparr>],
                  written = [Marshal go_neturl
                               \<lparr>URL = http_url ''h.test'' ''/'', Links = [http_url ''h.test'' ''/'']\<rparr>,
                             Marshal go_neturl
                               \<lparr>URL = http_url ''h.test'' ''/'', Links = [http_url ''h.test'' ''/'']\<rparr>],
                  stdout = [], status = Returned None\<rparr>)"
  by (simp add: Crawl_def Crawl_start_def go_defs http_url_def fetch_def self_link_client_def
        ok_page_def set_worker_def after_send_def on_page_def Discard_def collectLinks_def
        anchor_def formatURL_def wg_Done_def Marshal_def)

text \<open>
  C5. The claim sorts errors by the stage that produced them and says that a body-read
  error is returned at once. The loop sorts them by their value instead. Here the seed's
  response has status 200 and reading its body runs into the client's timeout: by the
  specification's words the error is \<open>body-read\<close>, a fatal class; the loop prints it,
  calls \<open>wg.Done()\<close> and goes on.
\<close>

theorem body_read_timeout_is_absorbed:
  "spec_classification (body_timeout_client ''http://h.test/'') = Some body_read
   \<and> \<not> spec_recoverable body_read
   \<and> Crawl go_neturl \<lparr>workerCount = 1, httpClient = body_timeout_client\<rparr> Discard ''http://h.test/''
         [Deliver 0 0, Forward 0, LoopError 0]
       = Inr (Some \<lparr>seedURL = http_url ''h.test'' ''/'', wg = 0, cache = {}, newURLs_senders = [],
                    newURLs_closed = False,
                    lanes = [\<lparr>worker = Gone, page_fwd = None, err_fwd = None\<rparr>],
                    written = [],
                    stdout = [NetError True ''Client.Timeout exceeded while reading body''],
                    status = Looping\<rparr>)"
  by (simp add: spec_classification_def Crawl_def Crawl_start_def go_defs http_url_def fetch_def
        body_timeout_client_def set_worker_def after_send_def on_error_def wg_Done_def)

text \<open>
  C5, as the code has it. In a state a run of \<open>Crawl\<close> has reached with the loop running:
  \<^item> an error whose cause is \<open>ErrHttpStatusCode\<close>, or which is a \<open>net.Error\<close> with
    \<open>Timeout()\<close> true, whatever stage of the fetch produced it, is printed, the counter is
    decremented and the loop goes on;
  \<^item> any other error received is what \<open>Crawl\<close> returns, in that very step;
  \<^item> the error of a failed \<open>out.Write\<close> is what \<open>Crawl\<close> returns, in that very step,
    whatever the error is.
\<close>

theorem loop_absorbs_timeouts_and_http_status:
  assumes "Crawl L c out_Write rawURL as = Inr (Some s)"
    and "status s = Looping" and "w < length (lanes s)"
  shows "(err_fwd (lanes s ! w) = Some err
            \<and> (cause_is_ErrHttpStatusCode err \<or> net_error_timeout err) \<longrightarrow>
          (\<exists>s'. Crawl L c out_Write rawURL (as @ [LoopError w]) = Inr (Some s')
                \<and> status s' = Looping \<and> wg s' = wg s - 1
                \<and> stdout s' = stdout s @ [err] \<and> written s' = written s))
     \<and> (err_fwd (lanes s ! w) = Some err
            \<and> \<not> cause_is_ErrHttpStatusCode err \<and> \<not> net_error_timeout err \<longrightarrow>
          (\<exists>s'. Crawl L c out_Write rawURL (as @ [LoopError w]) = Inr (Some s')
                \<and> status s' = Returned (Some err)))
     \<and> (page_fwd (lanes s ! w) = Some p \<and> out_Write (written s) (Marshal L p) = Some werr \<longrightarrow>
          (\<exists>s'. Crawl L c out_Write rawURL (as @ [LoopPage w]) = Inr (Some s')
                \<and> status s' = Returned (Some werr) \<and> written s' = written s))"
proof (intro conjI impI)
  assume a: "err_fwd (lanes s ! w) = Some err
               \<and> (cause_is_ErrHttpStatusCode err \<or> net_error_timeout err)"
  let ?t = "s\<lparr>lanes := (lanes s)[w := (lanes s ! w)\<lparr>err_fwd := None\<rparr>]\<rparr>"
  have "lane_load (lanes s ! w) \<le> outstanding s" by (rule lane_load_le_outstanding[OF assms(3)])
  moreover have "1 \<le> lane_load (lanes s ! w)" using a by (simp add: lane_load_def)
  moreover have "wg s = int (outstanding s)"
    using accounted_Crawl[OF assms(1)] assms(2) by (simp add: accounted_def)
  ultimately have pos: "0 < wg s" by simp
  have st: "step L c out_Write (LoopError w) s = Some (on_error err ?t)"
    using assms(2,3) a by simp
  have oe: "on_error err ?t = ?t\<lparr>stdout := stdout s @ [err], wg := wg s - 1\<rparr>"
    using a pos by (auto simp: on_error_def wg_Done_def)
  have "Crawl L c out_Write rawURL (as @ [LoopError w]) = Inr (Some (on_error err ?t))"
    using Crawl_snoc[OF assms(1), of "LoopError w"] st by simp
  then show "\<exists>s'. Crawl L c out_Write rawURL (as @ [LoopError w]) = Inr (Some s')
                \<and> status s' = Looping \<and> wg s' = wg s - 1
                \<and> stdout s' = stdout s @ [err] \<and> written s' = written s"
    using oe assms(2) by simp
next
  assume a: "err_fwd (lanes s ! w) = Some err
               \<and> \<not> cause_is_ErrHttpStatusCode err \<and> \<not> net_error_timeout err"
  let ?t = "s\<lparr>lanes := (lanes s)[w := (lanes s ! w)\<lparr>err_fwd := None\<rparr>]\<rparr>"
  have st: "step L c out_Write (LoopError w) s = Some (on_error err ?t)"
    using assms(2,3) a by simp
  have "Crawl L c out_Write rawURL (as @ [LoopError w]) = Inr (Some (on_error err ?t))"
    using Crawl_snoc[OF assms(1), of "LoopError w"] st by simp
  then show "\<exists>s'. Crawl L c out_Write rawURL (as @ [LoopError w]) = Inr (Some s')
                \<and> status s' = Returned (Some err)"
    using a by (simp add: on_error_def)
next
  assume a: "page_fwd (lanes s ! w) = Some p \<and> out_Write (written s) (Marshal L p) = Some werr"
  let ?t = "s\<lparr>lanes := (lanes s)[w := (lanes s ! w)\<lparr>page_fwd := None\<rparr>]\<rparr>"
  have st: "step L c out_Write (LoopPage w) s = Some (on_page L out_Write p ?t)"
    using assms(2,3) a by simp
  have "Crawl L c out_Write rawURL (as @ [LoopPage w]) = Inr (Some (on_page L out_Write p ?t))"
    using Crawl_snoc[OF assms(1), of "LoopPage w"] st by simp
  then show "\<exists>s'. Crawl L c out_Write rawURL (as @ [LoopPage w]) = Inr (Some s')
                \<and> status s' = Returned (Some werr) \<and> written s' = written s"
    using a by (simp add: on_page_def)
qed

theorem loop_absorbs_timeouts_and_http_status_witness:
  "(\<exists>s'. Crawl go_neturl \<lparr>workerCount = 1, httpClient = server_error_client\<rparr> Discard
             ''http://h.test/'' ([Deliver 0 0, Forward 0] @ [LoopError 0]) = Inr (Some s')
         \<and> status s' = Looping \<and> wg s' = 1 - 1
         \<and> stdout s' = [] @ [HttpStatusError ''http://h.test/'' 500] \<and> written s' = [])
   \<and> (\<exists>s'. Crawl go_neturl \<lparr>workerCount = 1, httpClient = refusing_client\<rparr> Discard
               ''http://h.test/'' ([Deliver 0 0, Forward 0] @ [LoopError 0]) = Inr (Some s')
           \<and> status s' = Returned (Some (OtherError ''connection refused'')))
   \<and> (\<exists>s'. Crawl go_neturl \<lparr>workerCount = 1, httpClient = self_link_client\<rparr> broken_writer
               ''http://h.test/'' ([Deliver 0 0, Forward 0] @ [LoopPage 0]) = Inr (Some s')
           \<and> status s' = Returned (Some (OtherError ''write failed'')) \<and> written s' = [])"
proof -
  let ?seed = "http_url ''h.test'' ''/''"
  let ?e = "HttpStatusError ''http://h.test/'' 500"
  let ?s1 = "\<lparr>seedURL = ?seed, wg = 1, cache = {}, newURLs_senders = [], newURLs_closed = False,
              lanes = [\<lparr>worker = Ranging, page_fwd = None, err_fwd = Some ?e\<rparr>],
              written = [], stdout = [], status = Looping\<rparr>"
  let ?s2 = "\<lparr>seedURL = ?seed, wg = 1, cache = {}, newURLs_senders = [], newURLs_closed = False,
              lanes = [\<lparr>worker = Gone, page_fwd = None,
                        err_fwd = Some (OtherError ''connection refused'')\<rparr>],
              written = [], stdout = [], status = Looping\<rparr>"
  let ?p = "\<lparr>URL = ?seed, Links = [?seed]\<rparr>"
  let ?s3 = "\<lparr>seedURL = ?seed, wg = 1, cache = {}, newURLs_senders = [], newURLs_closed = False,
              lanes = [\<lparr>worker = Ranging, page_fwd = Some ?p, err_fwd = None\<rparr>],
              written = [], stdout = [], status = Looping\<rparr>"
  have h1: "Crawl go_neturl \<lparr>workerCount = 1, httpClient = server_error_client\<rparr> Discard
              ''http://h.test/'' [Deliver 0 0, Forward 0] = Inr (Some ?s1)"
    by (simp add: Crawl_def Crawl_start_def go_defs http_url_def fetch_def server_error_client_def
          set_worker_def after_send_def)
  have h2: "Crawl go_neturl \<lparr>workerCount = 1, httpClient = refusing_client\<rparr> Discard
              ''http://h.test/'' [Deliver 0 0, Forward 0] = Inr (Some ?s2)"
    by (simp add: Crawl_def Crawl_start_def go_defs http_url_def fetch_def refusing_client_def
          set_worker_def after_send_def)
  have h3: "Crawl go_neturl \<lparr>workerCount = 1, httpClient = self_link_client\<rparr> broken_writer
              ''http://h.test/'' [Deliver 0 0, Forward 0] = Inr (Some ?s3)"
    by (simp add: Crawl_def Crawl_start_def go_defs http_url_def fetch_def self_link_client_def
          ok_page_def collectLinks_def anchor_def formatURL_def set_worker_def after_send_def)
  have w1: "broken_writer (written ?s3) (Marshal go_neturl ?p) = Some (OtherError ''write failed'')"
    by (simp add: broken_writer_def)
  note t1 = loop_absorbs_timeouts_and_http_status[OF h1, of 0 ?e ?p "OtherError ''write failed''"]
  note t2 = loop_absorbs_timeouts_and_http_status
              [OF h2, of 0 "OtherError ''connection refused''" ?p "OtherError ''write failed''"]
  note t3 = loop_absorbs_timeouts_and_http_status[OF h3, of 0 ?e ?p "OtherError ''write failed''"]
  have a: "\<exists>s'. Crawl go_neturl \<lparr>workerCount = 1, httpClient = server_error_client\<rparr> Discard
             ''http://h.test/'' ([Deliver 0 0, Forward 0] @ [LoopError 0]) = Inr (Some s')
         \<and> status s' = Looping \<and> wg s' = 1 - 1
         \<and> stdout s' = [] @ [HttpStatusError ''http://h.test/'' 500] \<and> written s' = []"
    using t1 by simp
  have b: "\<exists>s'. Crawl go_neturl \<lparr>workerCount = 1, httpClient = refusing_client\<rparr> Discard
               ''http://h.test/'' ([Deliver 0 0, Forward 0] @ [LoopError 0]) = Inr (Some s')
           \<and> status s' = Returned (Some (OtherError ''connection refused''))"
    using t2 by simp
  have c: "\<exists>s'. Crawl go_neturl \<lparr>workerCount = 1, httpClient = self_link_client\<rparr> broken_writer
               ''http://h.test/'' ([Deliver 0 0, Forward 0] @ [LoopPage 0]) = Inr (Some s')
           \<and> status s' = Returned (Some (OtherError ''write failed'')) \<and> written s' = []"
    using t3 w1 by simp
  from a b c show ?thesis by blast
qed

section \<open>Claims about the configuration\<close>

text \<open>
  C9. The claim: a worker count that is zero or negative is rejected as a configuration
  error before any fetching, and a negative count never starts a crawl. \<open>main\<close> tests
  \<open>workers == 0\<close> only, under the message \<open>must be greater than zero\<close>. Here the
  environment is \<open>WORKERS=-1\<close>, \<open>URL=http://h.test/\<close>: \<open>main\<close> calls \<open>Crawl\<close> with
  the worker count \<open>-1\<close>; \<open>Crawl\<close> seeds the frontier, starts no worker, finds the merged
  page channel closed and returns nil, whatever the client is. Nothing is reported and
  nothing is fetched.
\<close>

theorem negative_worker_count_is_crawled:
  "main negative_workers_env = Calls_Crawl (- 1) ''http://h.test/''
   \<and> Crawl go_neturl \<lparr>workerCount = - 1, httpClient = cl\<rparr> Discard ''http://h.test/''
         [LoopPagesClosed]
       = Inr (Some \<lparr>seedURL = http_url ''h.test'' ''/'', wg = 1, cache = {},
                    newURLs_senders = [http_url ''h.test'' ''/''], newURLs_closed = False,
                    lanes = [], written = [], stdout = [], status = Returned None\<rparr>)"
  by (simp add: main_def mustGetEnv_def negative_workers_env_def Atoi_def Crawl_def
        Crawl_start_def go_defs http_url_def)

text \<open>
  C10. \<open>Crawl\<close> returns before anything is started exactly when \<open>url.Parse\<close> fails on the
  raw seed, and then returns that error. Whatever else \<open>url.Parse\<close> yields is the seed:
  the counter is one, one goroutine is sending the seed, the workers are started, and with
  a positive worker count the seed can be handed to the first worker, which fetches it.
  No scheme or host is looked at.
\<close>

theorem Crawl_rejects_only_unparsable_seed:
  "((\<exists>err. Crawl L c out_Write rawURL as = Inl err) \<longleftrightarrow> (\<exists>err. url_Parse L rawURL = Inl err))
   \<and> (url_Parse L rawURL = Inl err \<longrightarrow> Crawl L c out_Write rawURL as = Inl err)
   \<and> (url_Parse L rawURL = Inr seed \<longrightarrow>
        Crawl L c out_Write rawURL []
          = Inr (Some \<lparr>seedURL = seed, wg = 1, cache = {}, newURLs_senders = [seed],
                       newURLs_closed = False,
                       lanes = replicate (nat (workerCount c))
                                 \<lparr>worker = Ranging, page_fwd = None, err_fwd = None\<rparr>,
                       written = [], stdout = [], status = Looping\<rparr>))
   \<and> (url_Parse L rawURL = Inr seed \<and> 0 < workerCount c \<longrightarrow>
        (\<exists>s1. Crawl L c out_Write rawURL [Deliver 0 0] = Inr (Some s1)
              \<and> newURLs_senders s1 = []
              \<and> (case fetch L (httpClient c) seed of
                    Panic e \<Rightarrow> status s1 = Crashed (Panicked e)
                  | Return (x, a) \<Rightarrow> worker (lanes s1 ! 0) = Sending x a)))"
proof (intro conjI impI)
  show "(\<exists>err. Crawl L c out_Write rawURL as = Inl err) \<longleftrightarrow> (\<exists>err. url_Parse L rawURL = Inl err)"
    by (auto simp: Crawl_def Crawl_start_def split: sum.splits)
next
  assume "url_Parse L rawURL = Inl err"
  then show "Crawl L c out_Write rawURL as = Inl err"
    by (simp add: Crawl_def Crawl_start_def)
next
  assume "url_Parse L rawURL = Inr seed"
  then show "Crawl L c out_Write rawURL []
          = Inr (Some \<lparr>seedURL = seed, wg = 1, cache = {}, newURLs_senders = [seed],
                       newURLs_closed = False,
                       lanes = replicate (nat (workerCount c))
                                 \<lparr>worker = Ranging, page_fwd = None, err_fwd = None\<rparr>,
                       written = [], stdout = [], status = Looping\<rparr>)"
    by (simp add: Crawl_def Crawl_start_def)
next
  assume a: "url_Parse L rawURL = Inr seed \<and> 0 < workerCount c"
  then have n: "0 < nat (workerCount c)" by simp
  show "\<exists>s1. Crawl L c out_Write rawURL [Deliver 0 0] = Inr (Some s1)
              \<and> newURLs_senders s1 = []
              \<and> (case fetch L (httpClient c) seed of
                    Panic e \<Rightarrow> status s1 = Crashed (Panicked e)
                  | Return (x, a) \<Rightarrow> worker (lanes s1 ! 0) = Sending x a)"
  proof (cases "fetch L (httpClient c) seed")
    case (Panic e)
    with a n show ?thesis by (simp add: Crawl_def Crawl_start_def)
  next
    case (Return r)
    obtain x b where "r = (x, b)" by (cases r)
    with Return a n show ?thesis by (simp add: Crawl_def Crawl_start_def set_worker_def)
  qed
qed

text \<open>
  With the model of \<open>net/url\<close>: the empty string, a path without a host and a
  \<open>mailto\<close> address are parsed, so each is taken as the seed; the string \<open>:\<close> is not, and
  is rejected.
\<close>

theorem Crawl_rejects_only_unparsable_seed_witness:
  "url_Parse go_neturl '''' = Inr \<lparr>Scheme = '''', Opaque = '''', Host = '''', Path = '''',
                                  ForceQuery = False, RawQuery = '''', Fragment = ''''\<rparr>
   \<and> Crawl go_neturl \<lparr>workerCount = 2, httpClient = refusing_client\<rparr> Discard '''' []
       = Inr (Some \<lparr>seedURL = \<lparr>Scheme = '''', Opaque = '''', Host = '''', Path = '''',
                                ForceQuery = False, RawQuery = '''', Fragment = ''''\<rparr>,
                    wg = 1, cache = {},
                    newURLs_senders = [\<lparr>Scheme = '''', Opaque = '''', Host = '''', Path = '''',
                                         ForceQuery = False, RawQuery = '''', Fragment = ''''\<rparr>],
                    newURLs_closed = False,
                    lanes = [\<lparr>worker = Ranging, page_fwd = None, err_fwd = None\<rparr>,
                             \<lparr>worker = Ranging, page_fwd = None, err_fwd = None\<rparr>],
                    written = [], stdout = [], status = Looping\<rparr>)
   \<and> (\<exists>s1. Crawl go_neturl \<lparr>workerCount = 2, httpClient = refusing_client\<rparr> Discard
               ''/a/b'' [Deliver 0 0] = Inr (Some s1)
           \<and> worker (lanes s1 ! 0) = Sending (OnErrs (OtherError ''connection refused'')) Returns)
   \<and> (\<exists>s1. Crawl go_neturl \<lparr>workerCount = 2, httpClient = refusing_client\<rparr> Discard
               ''mailto:test@test.com'' [Deliver 0 0] = Inr (Some s1)
           \<and> worker (lanes s1 ! 0) = Sending (OnErrs (OtherError ''connection refused'')) Returns)
   \<and> url_Parse go_neturl '':'' = Inl (NetError False ''missing protocol scheme'')
   \<and> Crawl go_neturl \<lparr>workerCount = 2, httpClient = refusing_client\<rparr> Discard '':'' [Deliver 0 0]
       = Inl (NetError False ''missing protocol scheme'')"
proof -
  let ?c = "\<lparr>workerCount = 2, httpClient = refusing_client\<rparr>"
  let ?e = "\<lparr>Scheme = '''', Opaque = '''', Host = '''', Path = '''',
             ForceQuery = False, RawQuery = '''', Fragment = ''''\<rparr>"
  let ?p = "\<lparr>Scheme = '''', Opaque = '''', Host = '''', Path = ''/a/b'',
             ForceQuery = False, RawQuery = '''', Fragment = ''''\<rparr>"
  let ?m = "\<lparr>Scheme = ''mailto'', Opaque = ''test@test.com'', Host = '''', Path = '''',
             ForceQuery = False, RawQuery = '''', Fragment = ''''\<rparr>"
  have p1: "url_Parse go_neturl '''' = Inr ?e" by (simp add: go_defs)
  have p2: "url_Parse go_neturl ''/a/b'' = Inr ?p" by (simp add: go_defs)
  have p3: "url_Parse go_neturl ''mailto:test@test.com'' = Inr ?m" by (simp add: go_defs)
  have p4: "url_Parse go_neturl '':'' = Inl (NetError False ''missing protocol scheme'')"
    by (simp add: go_defs)
  have f2: "fetch go_neturl (httpClient ?c) ?p
              = Return (OnErrs (OtherError ''connection refused''), Returns)"
    by (simp add: fetch_def refusing_client_def)
  have f3: "fetch go_neturl (httpClient ?c) ?m
              = Return (OnErrs (OtherError ''connection refused''), Returns)"
    by (simp add: fetch_def refusing_client_def)
  have n2: "numeral (num.Bit0 num.One) = Suc (Suc 0)" by simp
  have a: "Crawl go_neturl ?c Discard '''' []
             = Inr (Some \<lparr>seedURL = ?e, wg = 1, cache = {}, newURLs_senders = [?e],
                         newURLs_closed = False,
                         lanes = [\<lparr>worker = Ranging, page_fwd = None, err_fwd = None\<rparr>,
                                  \<lparr>worker = Ranging, page_fwd = None, err_fwd = None\<rparr>],
                         written = [], stdout = [], status = Looping\<rparr>)"
    using Crawl_rejects_only_unparsable_seed[of go_neturl ?c Discard "''''" "[]" "OtherError ''''" ?e]
          p1 by (simp add: n2)
  have b: "\<exists>s1. Crawl go_neturl ?c Discard ''/a/b'' [Deliver 0 0] = Inr (Some s1)
           \<and> worker (lanes s1 ! 0) = Sending (OnErrs (OtherError ''connection refused'')) Returns"
    using Crawl_rejects_only_unparsable_seed
            [of go_neturl ?c Discard "''/a/b''" "[Deliver 0 0]" "OtherError ''''" ?p]
          p2 f2 by auto
  have c: "\<exists>s1. Crawl go_neturl ?c Discard ''mailto:test@test.com'' [Deliver 0 0] = Inr (Some s1)
           \<and> worker (lanes s1 ! 0) = Sending (OnErrs (OtherError ''connection refused'')) Returns"
    using Crawl_rejects_only_unparsable_seed
            [of go_neturl ?c Discard "''mailto:test@test.com''" "[Deliver 0 0]" "OtherError ''''" ?m]
          p3 f3 by auto
  have d: "Crawl go_neturl ?c Discard '':'' [Deliver 0 0]
             = Inl (NetError False ''missing protocol scheme'')"
    using Crawl_rejects_only_unparsable_seed
            [of go_neturl ?c Discard "'':''" "[Deliver 0 0]"
                "NetError False ''missing protocol scheme''" ?e]
          p4 by simp
  from p1 a b c p4 d show ?thesis by blast
qed

end
